theory Spec2Isabelle
  imports Complex_Main
begin

section \<open>JavaScript values used by the extension\<close>

text \<open>
  Strings are lists of code units. The source decorates its user-visible messages with
  emoji; each emoji is written here as a short code between colons (\<open>:robot:\<close>), the
  rest of every message is kept. Timestamps (\<^verbatim>\<open>Date.now()\<close>) are not part of
  the model.

  A thrown exception is the value \<open>Threw msg\<close>; a normal return is \<open>Returned v\<close>.
\<close>

datatype 'a outcome = Threw string | Returned 'a

text \<open>\<^verbatim>\<open>s.includes(sub)\<close>: \<open>sub\<close> occurs in \<open>s\<close> as a contiguous run.\<close>

fun startsWith :: "string \<Rightarrow> string \<Rightarrow> bool" where
  "startsWith s [] = True"
| "startsWith [] (c # cs) = False"
| "startsWith (d # ds) (c # cs) = (d = c \<and> startsWith ds cs)"

fun js_includes :: "string \<Rightarrow> string \<Rightarrow> bool" where
  "js_includes [] sub = (sub = [])"
| "js_includes (d # ds) sub = (startsWith (d # ds) sub \<or> js_includes ds sub)"

text \<open>Template-literal interpolation of a possibly undefined string.\<close>

definition str :: "string option \<Rightarrow> string" where
  "str x = (case x of None \<Rightarrow> ''undefined'' | Some s \<Rightarrow> s)"

text \<open>Truthiness of a possibly undefined string: defined and not empty.\<close>

definition truthy :: "'a list option \<Rightarrow> bool" where
  "truthy x = (case x of None \<Rightarrow> False | Some s \<Rightarrow> s \<noteq> [])"

text \<open>\<^verbatim>\<open>a || b\<close> on possibly undefined strings.\<close>

definition js_or :: "'a list option \<Rightarrow> 'a list option \<Rightarrow> 'a list option" where
  "js_or a b = (if truthy a then a else b)"

text \<open>\<^verbatim>\<open>xs.slice(-n)\<close>: the last \<open>n\<close> entries; \<^verbatim>\<open>xs.slice(0, n)\<close>: the first \<open>n\<close>.\<close>

definition slice_last :: "nat \<Rightarrow> 'a list \<Rightarrow> 'a list" where
  "slice_last n xs = drop (length xs - n) xs"

definition slice_first :: "nat \<Rightarrow> 'a list \<Rightarrow> 'a list" where
  "slice_first n xs = take n xs"

section \<open>StorageManager (src/utils/storage.js)\<close>

text \<open>
  The key-value store is seen through the two keys the bounded lists live under:
  \<open>ADDED_ITEMS\<close> and \<open>CHAT_HISTORY\<close>; a key that was never written is \<open>None\<close>.
  \<open>get\<close> and \<open>set\<close> swallow the errors of \<^verbatim>\<open>chrome.storage.local\<close>: a failing
  read yields \<^verbatim>\<open>null\<close>, a failing write leaves the store as it was and yields
  \<^verbatim>\<open>false\<close>. Whether the next read or write fails is given by the caller.
  Since \<open>get\<close> and \<open>set\<close> never throw and a stored list is a list, nothing reaches
  the \<^verbatim>\<open>catch\<close> blocks of \<open>addSuccessfulItem\<close> and \<open>saveChatHistory\<close>: the
  first always returns the new item, the second always \<^verbatim>\<open>true\<close>.
\<close>

record addedItem =
  item_id :: real
  item_timestamp :: string
  item_site :: "string option"
  item_name :: "string option"
  item_price :: "string option"
  item_image :: "string option"
  item_url :: "string option"
  item_category :: "string option"
  item_originalRequest :: "string option"

record itemData =
  site :: "string option"
  name :: "string option"
  price :: "string option"
  image :: "string option"
  url :: "string option"
  category :: "string option"
  originalRequest :: "string option"

record 'm storage =
  ADDED_ITEMS :: "addedItem list option"
  CHAT_HISTORY :: "'m list option"

definition get_ADDED_ITEMS :: "bool \<Rightarrow> 'm storage \<Rightarrow> addedItem list option" where
  "get_ADDED_ITEMS getFails st = (if getFails then None else ADDED_ITEMS st)"

definition set_ADDED_ITEMS :: "bool \<Rightarrow> 'm storage \<Rightarrow> addedItem list \<Rightarrow> bool \<times> 'm storage" where
  "set_ADDED_ITEMS setFails st v =
     (if setFails then (False, st) else (True, st\<lparr>ADDED_ITEMS := Some v\<rparr>))"

definition get_CHAT_HISTORY :: "bool \<Rightarrow> 'm storage \<Rightarrow> 'm list option" where
  "get_CHAT_HISTORY getFails st = (if getFails then None else CHAT_HISTORY st)"

definition set_CHAT_HISTORY :: "bool \<Rightarrow> 'm storage \<Rightarrow> 'm list \<Rightarrow> bool \<times> 'm storage" where
  "set_CHAT_HISTORY setFails st v =
     (if setFails then (False, st) else (True, st\<lparr>CHAT_HISTORY := Some v\<rparr>))"

definition getAddedItems :: "bool \<Rightarrow> 'm storage \<Rightarrow> addedItem list" where
  "getAddedItems getFails st =
     (case get_ADDED_ITEMS getFails st of None \<Rightarrow> [] | Some items \<Rightarrow> items)"

definition getChatHistory :: "bool \<Rightarrow> 'm storage \<Rightarrow> 'm list" where
  "getChatHistory getFails st =
     (case get_CHAT_HISTORY getFails st of None \<Rightarrow> [] | Some history \<Rightarrow> history)"

text \<open>
  \<open>newItem\<close>: the record built from \<open>itemData\<close>, with the fresh id (a number with a
  fraction: \<^verbatim>\<open>Date.now() + Math.random()\<close>) and the ISO timestamp
  (\<^verbatim>\<open>new Date().toISOString()\<close>) supplied by the caller.
\<close>

definition newItem :: "real \<Rightarrow> string \<Rightarrow> itemData \<Rightarrow> addedItem" where
  "newItem fresh now d =
     \<lparr> item_id = fresh,
       item_timestamp = now,
       item_site = js_or (site d) (Some ''unknown''),
       item_name = js_or (name d) (Some ''Unknown Product''),
       item_price = js_or (price d) None,
       item_image = js_or (image d) None,
       item_url = js_or (url d) None,
       item_category = js_or (category d) None,
       item_originalRequest = js_or (originalRequest d) None \<rparr>"

definition addSuccessfulItem ::
  "bool \<Rightarrow> bool \<Rightarrow> real \<Rightarrow> string \<Rightarrow> 'm storage \<Rightarrow> itemData \<Rightarrow> addedItem option \<times> 'm storage" where
  "addSuccessfulItem getFails setFails fresh now st d =
     (let existingItems = getAddedItems getFails st;
          item = newItem fresh now d;
          existingItems' = item # existingItems;
          trimmedItems = slice_first 50 existingItems';
          (ok, st') = set_ADDED_ITEMS setFails st trimmedItems
      in (Some item, st'))"

definition saveChatHistory :: "bool \<Rightarrow> 'm storage \<Rightarrow> 'm list \<Rightarrow> bool \<times> 'm storage" where
  "saveChatHistory setFails st messages =
     (let trimmedMessages = slice_last 100 messages;
          (ok, st') = set_CHAT_HISTORY setFails st trimmedMessages
      in (True, st'))"

text \<open>The bounds as invariants of the store.\<close>

definition itemsBounded :: "'m storage \<Rightarrow> bool" where
  "itemsBounded st = (case ADDED_ITEMS st of None \<Rightarrow> True | Some items \<Rightarrow> length items \<le> 50)"

definition chatBounded :: "'m storage \<Rightarrow> bool" where
  "chatBounded st = (case CHAT_HISTORY st of None \<Rightarrow> True | Some ms \<Rightarrow> length ms \<le> 100)"

text \<open>
  A store that already holds 50 items and 3 messages: the new item goes to the front and
  the oldest item is dropped; of 101 messages the first is dropped.
\<close>

definition sampleItem :: "nat \<Rightarrow> addedItem" where
  "sampleItem k = newItem (real k + 1 / 2) ''2024-01-01T00:00:00.000Z''
     \<lparr> site = Some ''amazon'', name = Some ''Headphones'', price = None, image = None,
       url = None, category = None, originalRequest = None \<rparr>"

definition sampleData :: itemData where
  "sampleData = \<lparr> site = None, name = Some [], price = Some ''9.99'', image = None,
     url = None, category = None, originalRequest = None \<rparr>"

definition fullStore :: "nat storage" where
  "fullStore = \<lparr> ADDED_ITEMS = Some (map sampleItem [0..<50]), CHAT_HISTORY = Some [1, 2, 3] \<rparr>"

section \<open>Transport: BackgroundScript.sendMessageToTab\<close>

text \<open>
  One delivery attempt either resolves with the content script's response or fails with
  \<^verbatim>\<open>chrome.runtime.lastError\<close>. The tab says how each attempt ends and whether
  re-injecting the content script after it succeeds. What the function does to the
  outside is its list of effects, in order: the messages sent (with the attempt number
  the source logs), the script injections (with their success) and the two kinds of
  timer: the one-second settle after a successful injection and the backoff before the
  next attempt.
\<close>

datatype 'r delivery = Resolved 'r | LastError string

record 'r tabEnv =
  sendMessage :: "nat \<Rightarrow> 'r delivery"
  executeScript :: "nat \<Rightarrow> bool"

datatype effect = SendMessage nat | ExecuteScript bool | SettleWait nat | BackoffWait nat

text \<open>The test for a stale execution context (line 207).\<close>

definition isCacheError :: "string \<Rightarrow> bool" where
  "isCacheError m = (js_includes m ''back/forward cache'' \<or> js_includes m ''Receiving end does not exist'')"

text \<open>\<^verbatim>\<open>Math.min(1000 * Math.pow(2, attempt - 1), 5000)\<close> (line 233).\<close>

definition backoffDelay :: "nat \<Rightarrow> nat" where
  "backoffDelay attempt = min (1000 * 2 ^ (attempt - 1)) 5000"

text \<open>
  The recovery branch (lines 207 to 226): on a stale-context error the content script is
  injected again; a failed injection is only logged.
\<close>

definition reinject :: "'r tabEnv \<Rightarrow> nat \<Rightarrow> string \<Rightarrow> effect list" where
  "reinject env attempt m =
     (if isCacheError m
      then (if executeScript env attempt then [ExecuteScript True, SettleWait 1000]
            else [ExecuteScript False])
      else [])"

text \<open>
  The \<^verbatim>\<open>for\<close> loop from a given attempt on. A loop that is never entered, or falls
  through, returns \<^verbatim>\<open>undefined\<close>: \<open>Returned None\<close>.
\<close>

function sendMessageToTab_from ::
  "'r tabEnv \<Rightarrow> nat \<Rightarrow> nat \<Rightarrow> 'r option outcome \<times> effect list" where
  "sendMessageToTab_from env maxRetries attempt =
     (if attempt \<le> maxRetries then
        (case sendMessage env attempt of
           Resolved response \<Rightarrow> (Returned (Some response), [SendMessage attempt])
         | LastError m \<Rightarrow>
             (if attempt = maxRetries
              then (Threw m, SendMessage attempt # reinject env attempt m)
              else (let delay = backoffDelay attempt;
                        (res, later) = sendMessageToTab_from env maxRetries (attempt + 1)
                    in (res, SendMessage attempt # reinject env attempt m @ BackoffWait delay # later))))
      else (Returned None, []))"
  by pat_completeness auto
termination
  by (relation "measure (\<lambda>(env, maxRetries, attempt). Suc maxRetries - attempt)") auto

text \<open>The call with the default \<^verbatim>\<open>maxRetries = 5\<close>, as the agent makes it.\<close>

definition sendMessageToTab :: "'r tabEnv \<Rightarrow> 'r option outcome \<times> effect list" where
  "sendMessageToTab env = sendMessageToTab_from env 5 1"



declare sendMessageToTab_from.simps [simp del]

text \<open>
  Two tabs: one that recovers at the fourth attempt, one whose listener never comes back.
\<close>

definition flakyTab :: "string tabEnv" where
  "flakyTab =
     \<lparr> sendMessage = (\<lambda>attempt.
         if attempt = 1 then LastError ''Could not establish connection. Receiving end does not exist.''
         else if attempt = 2 then LastError ''The page is moved into back/forward cache, so the message channel is closed.''
         else if attempt = 3 then LastError ''The message port closed before a response was received.''
         else Resolved ''ok''),
       executeScript = (\<lambda>attempt. attempt = 1) \<rparr>"


section \<open>AIAgent: the THINK, ACT, OBSERVE loop\<close>

text \<open>
  A decision (\<^verbatim>\<open>functionCall\<close>, \<^verbatim>\<open>thinking\<close>) is the argument object of the
  \<^verbatim>\<open>browser_action\<close> tool call. The action is an open string tag, compared by
  equality as in the source; the schema requires only \<^verbatim>\<open>action\<close> and
  \<^verbatim>\<open>reasoning\<close>, so every other field may be undefined. The field \<^verbatim>\<open>text\<close> is
  named \<open>text_arg\<close> here.
\<close>

record decision =
  action :: string
  target :: "string option"
  text_arg :: "string option"
  reasoning :: "string option"
  summary :: "string option"

record actionRecord =
  rec_action :: string
  rec_target :: "string option"
  rec_text :: "string option"
  rec_step :: nat

record chatMessage =
  role :: string
  content :: string

text \<open>An update handed to \<^verbatim>\<open>sendUpdate\<close>: its \<^verbatim>\<open>type\<close> and its \<^verbatim>\<open>message\<close>.\<close>

record update =
  update_type :: string
  update_message :: string

text \<open>What \<^verbatim>\<open>OpenAIClient.chat\<close> returns.\<close>

record toolCall =
  call_name :: string
  arguments :: decision

record response =
  resp_success :: bool
  resp_error :: "string option"
  tool_call :: "toolCall option"

record actionResult =
  success :: bool
  message :: "string option"
  error :: "string option"
  data :: "string option"

text \<open>
  The agent object. \<open>sent\<close> lists the updates passed to \<^verbatim>\<open>sendUpdate\<close>, oldest
  first; it stands for the messages on \<^verbatim>\<open>chrome.runtime\<close>.
\<close>

record agent =
  isRunning :: bool
  currentTask :: "string option"
  stepCount :: nat
  maxSteps :: nat
  conversationHistory :: "chatMessage list"
  tabId :: "nat option"
  lastAction :: "actionRecord option"
  actionHistory :: "actionRecord list"
  consecutiveFailures :: nat
  sent :: "update list"

text \<open>
  What the outside does during one loop iteration: the oracle's answer, the navigation
  (\<open>None\<close> when \<^verbatim>\<open>chrome.tabs.update\<close> resolves, its error message otherwise), the
  outcome of the race between the content script's reply and the ten-second timer (a
  rejection is a throw, as is the transport giving up after its last attempt), and
  whether the user's stop request is handled while the loop waits in THINK, in ACT or in
  the delay between steps. A reply that resolves is taken to be a result object.
\<close>

record world =
  chat :: response
  stopInThink :: bool
  tabsUpdate :: "string option"
  toContent :: "actionResult outcome"
  stopInAct :: bool
  stopInSleep :: bool

text \<open>A step of the world in which no stop request arrives.\<close>

definition quiet :: "world \<Rightarrow> bool" where
  "quiet w = (\<not> stopInThink w \<and> \<not> stopInAct w \<and> \<not> stopInSleep w)"

definition dq :: string where
  "dq = [CHR 0x22]"

definition sq :: string where
  "sq = [CHR 0x27]"

definition newAgent :: agent where
  "newAgent =
     \<lparr> isRunning = False, currentTask = None, stepCount = 0, maxSteps = 10,
       conversationHistory = [], tabId = None, lastAction = None, actionHistory = [],
       consecutiveFailures = 0, sent = [] \<rparr>"

definition sendUpdate :: "agent \<Rightarrow> string \<Rightarrow> string \<Rightarrow> agent" where
  "sendUpdate s ty msg = s\<lparr>sent := sent s @ [\<lparr>update_type = ty, update_message = msg\<rparr>]\<rparr>"

definition pushHistory :: "agent \<Rightarrow> string \<Rightarrow> string \<Rightarrow> agent" where
  "pushHistory s r c =
     s\<lparr>conversationHistory := conversationHistory s @ [\<lparr>role = r, content = c\<rparr>]\<rparr>"

text \<open>A transcript entry with the role \<open>system\<close>.\<close>

definition sys :: "string \<Rightarrow> chatMessage" where
  "sys c = \<lparr>role = ''system'', content = c\<rparr>"

definition stopTask :: "agent \<Rightarrow> agent" where
  "stopTask s =
     sendUpdate
       (s\<lparr>isRunning := False, currentTask := None, stepCount := 0, lastAction := None,
          actionHistory := [], consecutiveFailures := 0\<rparr>)
       ''task_aborted'' '':stop_sign: Task aborted by user''"

text \<open>\<^verbatim>\<open>BackgroundScript.handleAgentStop\<close>: the stop request reaches a running agent only.\<close>

definition handleAgentStop :: "agent \<Rightarrow> agent" where
  "handleAgentStop s = (if isRunning s then stopTask s else s)"

definition stopRequested :: "bool \<Rightarrow> agent \<Rightarrow> agent" where
  "stopRequested b s = (if b then handleAgentStop s else s)"

text \<open>The prompt text is cut after its first sentence; nothing depends on it.\<close>

definition getSystemPrompt :: string where
  "getSystemPrompt = ''You are an AI browser automation agent.''"

definition isRepeatingAction :: "agent \<Rightarrow> decision \<Rightarrow> bool" where
  "isRepeatingAction s functionCall =
     (if (case lastAction s of
            None \<Rightarrow> False
          | Some l \<Rightarrow> rec_action l = action functionCall \<and> rec_target l = target functionCall)
      then True
      else (let recentActions = slice_last 2 (actionHistory s);
                sameActionCount = length (filter
                  (\<lambda>a. rec_action a = action functionCall \<and> rec_target a = target functionCall)
                  recentActions)
            in if sameActionCount \<ge> 1 then True else False))"

definition recordAction :: "agent \<Rightarrow> decision \<Rightarrow> agent" where
  "recordAction s functionCall =
     (let actionRecord = \<lparr> rec_action = action functionCall, rec_target = target functionCall,
            rec_text = text_arg functionCall, rec_step = stepCount s \<rparr>;
          s1 = s\<lparr>lastAction := Some actionRecord,
                 actionHistory := actionHistory s @ [actionRecord]\<rparr>
      in if length (actionHistory s1) > 10
         then s1\<lparr>actionHistory := slice_last 10 (actionHistory s1)\<rparr>
         else s1)"

text \<open>The fallback of lines 198 to 204, when no \<^verbatim>\<open>browser_action\<close> tool call came.\<close>

definition fallbackCall :: decision where
  "fallbackCall =
     \<lparr> action = ''extract_text'', target = Some ''body'', text_arg = None,
       reasoning = Some ''No tool call received, extracting page content to understand current state'',
       summary = None \<rparr>"

definition chosenCall :: "response \<Rightarrow> decision" where
  "chosenCall r =
     (case tool_call r of
        None \<Rightarrow> fallbackCall
      | Some tc \<Rightarrow> if call_name tc = ''browser_action'' then arguments tc else fallbackCall)"

text \<open>The loop detection of lines 207 to 237.\<close>

definition loopGuard :: "agent \<Rightarrow> decision \<Rightarrow> decision" where
  "loopGuard s functionCall =
     (if isRepeatingAction s functionCall then
        (if action functionCall = ''open'' then
           \<lparr> action = ''extract_text'', target = Some ''body'', text_arg = None,
             reasoning = Some ''Already navigated, now extracting page content to proceed with task'',
             summary = None \<rparr>
         else if action functionCall = ''click'' then
           \<lparr> action = ''extract_text'', target = Some ''body'', text_arg = None,
             reasoning = Some ''Previous click failed, extracting page content to understand current state and find alternative approach'',
             summary = None \<rparr>
         else if action functionCall = ''extract_text'' then
           \<lparr> action = ''finish'', target = None, text_arg = None,
             reasoning = Some ''Preventing loop by finishing task'',
             summary = Some ''Task appears complete based on previous actions'' \<rparr>
         else functionCall)
      else functionCall)"

definition think :: "world \<Rightarrow> agent \<Rightarrow> decision outcome \<times> agent" where
  "think w s =
     (let s1 = sendUpdate s ''thinking'' '':thinking: Thinking about next action...'';
          s2 = stopRequested (stopInThink w) s1;
          response = chat w
      in if \<not> resp_success response
         then (Threw (''AI thinking failed: '' @ str (resp_error response)), s2)
         else (let functionCall = loopGuard s2 (chosenCall response);
                   s3 = recordAction s2 functionCall;
                   s4 = sendUpdate s3 ''thinking'' ('':thought: '' @ str (reasoning functionCall))
               in (Returned functionCall, s4)))"

text \<open>
  \<^verbatim>\<open>actionEmojis[thinking.action]\<close> is a property lookup on an object literal: a name
  the literal does not define is looked up on \<^verbatim>\<open>Object.prototype\<close>, whose members
  are functions (interpolated as their source text) and \<^verbatim>\<open>__proto__\<close> (an object).
\<close>

definition objectPrototype :: "string \<Rightarrow> string option" where
  "objectPrototype a =
     (if a = ''constructor'' then Some ''function Object() { [native code] }''
      else if a = ''__proto__'' then Some ''[object Object]''
      else if a \<in> set [''__defineGetter__'', ''__defineSetter__'', ''hasOwnProperty'',
                         ''__lookupGetter__'', ''__lookupSetter__'', ''isPrototypeOf'',
                         ''propertyIsEnumerable'', ''toString'', ''valueOf'', ''toLocaleString'']
      then Some (''function '' @ a @ ''() { [native code] }'')
      else None)"

definition actionEmojis :: "string \<Rightarrow> string option" where
  "actionEmojis a =
     (if a = ''open'' then Some '':globe:''
      else if a = ''click'' then Some '':point_up:''
      else if a = ''type'' then Some '':keyboard:''
      else if a = ''extract_text'' then Some '':page:''
      else if a = ''finish'' then Some '':check:''
      else objectPrototype a)"

definition getActionMessage :: "decision \<Rightarrow> string" where
  "getActionMessage thinking =
     (let emoji = str (js_or (actionEmojis (action thinking)) (Some '':wrench:''));
          m0 = emoji @ '' '' @ action thinking;
          m1 = (if truthy (target thinking) then m0 @ '': '' @ str (target thinking) else m0);
          m2 = (if truthy (text_arg thinking)
                then m1 @ '' ('' @ dq @ str (text_arg thinking) @ dq @ '')'' else m1)
      in m2)"

text \<open>Reading \<^verbatim>\<open>.includes\<close> of an undefined target throws a TypeError.\<close>

definition typeError :: string where
  "typeError = ''Cannot read properties of undefined (reading '' @ sq @ ''includes'' @ sq @ '')''"

definition targetIncludes :: "string option \<Rightarrow> string \<Rightarrow> bool outcome" where
  "targetIncludes t sub =
     (case t of None \<Rightarrow> Threw typeError | Some x \<Rightarrow> Returned (js_includes x sub))"

definition act :: "world \<Rightarrow> agent \<Rightarrow> decision \<Rightarrow> actionResult outcome \<times> agent" where
  "act w s thinking =
     (let s1 = sendUpdate s ''action'' (getActionMessage thinking);
          s2 = stopRequested (stopInAct w) s1
      in if action thinking = ''open'' then
           (case tabsUpdate w of
              None \<Rightarrow>
                (Returned \<lparr> success = True,
                    message = Some (''Navigated to '' @ str (target thinking)),
                    error = None, data = None \<rparr>, s2)
            | Some e \<Rightarrow>
                (Returned \<lparr> success = False, message = None,
                    error = Some (''Failed to navigate: '' @ e), data = None \<rparr>, s2))
         else
           (case toContent w of
              Threw e \<Rightarrow> (Threw e, s2)
            | Returned result \<Rightarrow>
                (if action thinking = ''click''
                 then (case targetIncludes (target thinking) ''submit'' of
                         Threw e \<Rightarrow> (Threw e, s2)
                       | Returned b \<Rightarrow> (Returned result, s2))
                 else (Returned result, s2))))"

text \<open>
  The test \<^verbatim>\<open>this.lastAction && this.lastAction.action === 'click' &&
  this.lastAction.target.includes('submit')\<close> of lines 310 and 320.
\<close>

definition lastActionIsSubmitClick :: "agent \<Rightarrow> bool outcome" where
  "lastActionIsSubmitClick s =
     (case lastAction s of
        None \<Rightarrow> Returned False
      | Some l \<Rightarrow> if rec_action l = ''click'' then targetIncludes (rec_target l) ''submit''
                  else Returned False)"

definition getNextActionSuggestion :: "agent \<Rightarrow> string outcome" where
  "getNextActionSuggestion s =
     (case lastAction s of
        None \<Rightarrow> Returned (''Try extracting page content to understand what'' @ sq @ ''s available.'')
      | Some l \<Rightarrow>
          (if rec_action l = ''click'' then
             (case rec_target l of
                None \<Rightarrow> Threw typeError
              | Some lastTarget \<Rightarrow>
                  if js_includes lastTarget ''search'' \<or> js_includes lastTarget ''btn''
                     \<or> js_includes lastTarget ''submit''
                  then Returned ''The search button click failed. Try extracting page content to see if the search was successful, or try pressing Enter in the search box instead.''
                  else Returned (''The click failed. Try extract_text to see what'' @ sq @ ''s available on the page, or try a different selector.''))
           else if rec_action l = ''type'' then
             Returned ''The typing failed. Try extracting page content to see if the input field is available, or try a different selector.''
           else if rec_action l = ''extract_text'' then
             Returned ''Text extraction failed. Try a different selector or approach.''
           else Returned (''Try a different approach or extract page content to understand what'' @ sq @ ''s available.'')))"

text \<open>The three transcript injections of \<^verbatim>\<open>observe\<close> that do not depend on the result.\<close>

definition searchSubmittedNote :: string where
  "searchSubmittedNote = ''Search button click was successful! The search has been submitted. Now extract the page content to see the search results and proceed with the task.''"

definition timeoutNote :: string where
  "timeoutNote = ''Search button click timed out, but this often means the search was submitted successfully. Extract the page content to see if search results are displayed.''"

definition finishDirective :: string where
  "finishDirective = ''Too many failures. Please use the finish action to complete what you can or explain what went wrong.''"

text \<open>The end of \<^verbatim>\<open>observe\<close>, common to both branches (lines 360 to 370).\<close>

definition observeReport :: "agent \<Rightarrow> string \<Rightarrow> actionResult \<Rightarrow> agent" where
  "observeReport s observationMessage r =
     pushHistory (sendUpdate s ''observation'' observationMessage) ''user''
       (''Action result: '' @ (if success r then ''SUCCESS'' else ''FAILED'') @ ''. ''
          @ str (js_or (message r) (error r))
          @ (if truthy (data r) then '' Data: '' @ str (data r) else ''''))"

text \<open>The test of the timeout heuristic (lines 319 and 320).\<close>

definition isSubmitTimeout :: "agent \<Rightarrow> actionResult \<Rightarrow> bool outcome" where
  "isSubmitTimeout s r =
     (if truthy (error r) \<and> js_includes (str (error r)) ''timeout''
      then lastActionIsSubmitClick s else Returned False)"

text \<open>The success branch (lines 303 to 316).\<close>

definition observeSuccess :: "agent \<Rightarrow> actionResult \<Rightarrow> unit outcome \<times> agent" where
  "observeSuccess s r =
     (let observationMessage = '':eye: Success: '' @ str (message r)
            @ (if truthy (data r) then '' | Data: '' @ take 100 (str (data r)) @ ''...'' else []);
          s1 = s\<lparr>consecutiveFailures := 0\<rparr>
      in case lastActionIsSubmitClick s1 of
           Threw e \<Rightarrow> (Threw e, s1)
         | Returned b \<Rightarrow>
             (Returned (),
              observeReport (if b then pushHistory s1 ''system'' searchSubmittedNote else s1)
                observationMessage r))"

text \<open>
  The failure branch in its four steps: the timeout heuristic (lines 319 to 328), the
  increment (line 331), the suggestion (lines 334 to 340) and the escalation (lines 343
  to 357).
\<close>

definition timeoutAsSuccess :: "agent \<Rightarrow> agent" where
  "timeoutAsSuccess s =
     (pushHistory s ''system'' timeoutNote)
       \<lparr>consecutiveFailures := nat (max 0 (int (consecutiveFailures s) - 1))\<rparr>"

definition countFailure :: "agent \<Rightarrow> agent" where
  "countFailure s = s\<lparr>consecutiveFailures := consecutiveFailures s + 1\<rparr>"

definition suggestNext :: "agent \<Rightarrow> actionResult \<Rightarrow> agent outcome" where
  "suggestNext s r =
     (if consecutiveFailures s \<ge> 1
      then (case getNextActionSuggestion s of
              Threw e \<Rightarrow> Threw e
            | Returned nextActionSuggestion \<Rightarrow>
                Returned (pushHistory s ''system''
                  (''Action failed: '' @ str (error r) @ ''. '' @ nextActionSuggestion)))
      else Returned s)"

definition escalate :: "agent \<Rightarrow> agent" where
  "escalate s =
     (if consecutiveFailures s \<ge> 2
      then pushHistory
             (sendUpdate s ''system''
                '':warning: Too many consecutive failures, attempting to complete task'')
             ''system'' finishDirective
      else s)"

definition observeFailure :: "agent \<Rightarrow> actionResult \<Rightarrow> unit outcome \<times> agent" where
  "observeFailure s r =
     (case isSubmitTimeout s r of
        Threw e \<Rightarrow> (Threw e, s)
      | Returned b \<Rightarrow>
          (let s1 = (if b then timeoutAsSuccess s else s);
               observationMessage = '':x: Failed: '' @ str (error r);
               s2 = countFailure s1
           in case suggestNext s2 r of
                Threw e \<Rightarrow> (Threw e, s2)
              | Returned s3 \<Rightarrow> (Returned (), observeReport (escalate s3) observationMessage r)))"

definition observe :: "agent \<Rightarrow> actionResult \<Rightarrow> unit outcome \<times> agent" where
  "observe s r = (if success r then observeSuccess s r else observeFailure s r)"

text \<open>The \<^verbatim>\<open>catch\<close> block of the loop body (lines 106 to 119).\<close>

fun digits :: "nat \<Rightarrow> string" where
  "digits n = (if n < 10 then [char_of (48 + n)] else digits (n div 10) @ [char_of (48 + n mod 10)])"

declare digits.simps [simp del]

definition stepFailed :: "agent \<Rightarrow> string \<Rightarrow> agent" where
  "stepFailed s e =
     pushHistory
       (sendUpdate s ''system'' ('':warning: Step '' @ digits (stepCount s) @ '' failed: '' @ e))
       ''system'' (''Error occurred: '' @ e @ ''. Try a different approach.'')"

text \<open>
  One pass through the body of the \<^verbatim>\<open>while\<close> loop. \<open>Break\<close> leaves the loop at once;
  \<open>Continue\<close> goes back to the loop test.
\<close>

datatype flow = Break | Continue

definition loopBody :: "world \<Rightarrow> agent \<Rightarrow> flow \<times> agent" where
  "loopBody w s =
     (let s0 = s\<lparr>stepCount := stepCount s + 1\<rparr>
      in case think w s0 of
           (Threw e, s1) \<Rightarrow> (Continue, stepFailed s1 e)
         | (Returned thinking, s1) \<Rightarrow>
             if \<not> isRunning s1 then (Break, s1)
             else if action thinking = ''finish'' then
               (Break, stopTask (sendUpdate s1 ''system''
                   ('':check: Task completed: '' @ str (summary thinking))))
             else
               (case act w s1 thinking of
                  (Threw e, s2) \<Rightarrow> (Continue, stepFailed s2 e)
                | (Returned actionResult, s2) \<Rightarrow>
                    if \<not> isRunning s2 then (Break, s2)
                    else
                      (case observe s2 actionResult of
                         (Threw e, s3) \<Rightarrow> (Continue, stepFailed s3 e)
                       | (Returned u, s3) \<Rightarrow> (Continue, stopRequested (stopInSleep w) s3))))"

text \<open>
  What every operation of the loop body keeps: the budget \<open>maxSteps\<close> is never written,
  the step counter is only ever reset, an agent found running afterwards was running
  before, with the same step counter, and an agent that stopped running has its step
  counter at 0. This is what makes the loop terminate.
\<close>

definition keeps :: "agent \<Rightarrow> agent \<Rightarrow> bool" where
  "keeps s s' =
     (maxSteps s' = maxSteps s \<and> stepCount s' \<le> stepCount s
      \<and> (isRunning s' \<longrightarrow> isRunning s \<and> stepCount s' = stepCount s)
      \<and> (isRunning s \<and> \<not> isRunning s' \<longrightarrow> stepCount s' = 0))"

lemma keeps_refl: "keeps s s"
  by (simp add: keeps_def)

lemma keeps_trans: "keeps a b \<Longrightarrow> keeps b c \<Longrightarrow> keeps a c"
  unfolding keeps_def by (cases "isRunning b") auto

lemma keeps_sendUpdate: "keeps s (sendUpdate s ty m)"
  by (simp add: keeps_def sendUpdate_def)

lemma keeps_pushHistory: "keeps s (pushHistory s r c)"
  by (simp add: keeps_def pushHistory_def)

lemma keeps_stopTask: "keeps s (stopTask s)"
  by (simp add: keeps_def stopTask_def sendUpdate_def)

lemma keeps_stopRequested: "keeps s (stopRequested b s)"
  by (simp add: stopRequested_def handleAgentStop_def keeps_stopTask keeps_refl)

lemma keeps_recordAction: "keeps s (recordAction s d)"
  by (simp add: keeps_def recordAction_def Let_def)

lemma keeps_stepFailed: "keeps s (stepFailed s e)"
  unfolding stepFailed_def
  by (rule keeps_trans [OF keeps_sendUpdate keeps_pushHistory])

lemma keeps_think: "keeps s (snd (think w s))"
proof -
  let ?s1 = "sendUpdate s ''thinking'' '':thinking: Thinking about next action...''"
  let ?s2 = "stopRequested (stopInThink w) ?s1"
  have k2: "keeps s ?s2"
    by (rule keeps_trans [OF keeps_sendUpdate keeps_stopRequested])
  show ?thesis
  proof (cases "resp_success (chat w)")
    case False
    then show ?thesis using k2 by (simp add: think_def Let_def)
  next
    case True
    let ?d = "loopGuard ?s2 (chosenCall (chat w))"
    have "keeps s (sendUpdate (recordAction ?s2 ?d) ''thinking'' ('':thought: '' @ str (reasoning ?d)))"
      by (rule keeps_trans [OF k2 keeps_trans [OF keeps_recordAction keeps_sendUpdate]])
    then show ?thesis using True by (simp add: think_def Let_def)
  qed
qed

lemma act_state:
  "snd (act w s d) = stopRequested (stopInAct w) (sendUpdate s ''action'' (getActionMessage d))"
  by (simp add: act_def Let_def split: option.split outcome.split)

lemma keeps_act: "keeps s (snd (act w s d))"
  unfolding act_state
  by (rule keeps_trans [OF keeps_sendUpdate keeps_stopRequested])

lemma keeps_observeReport: "keeps s (observeReport s m r)"
  unfolding observeReport_def
  by (rule keeps_trans [OF keeps_sendUpdate keeps_pushHistory])

lemma keeps_counter: "keeps s (s\<lparr>consecutiveFailures := c\<rparr>)"
  by (simp add: keeps_def)

lemma keeps_observeSuccess: "keeps s (snd (observeSuccess s r))"
proof -
  let ?s1 = "s\<lparr>consecutiveFailures := 0\<rparr>"
  have a: "keeps s ?s1" by (rule keeps_counter)
  have b: "keeps s (pushHistory ?s1 ''system'' searchSubmittedNote)"
    by (rule keeps_trans [OF a keeps_pushHistory])
  have c: "\<And>b m. keeps s (observeReport (if b then pushHistory ?s1 ''system'' searchSubmittedNote else ?s1) m r)"
    using a b keeps_trans [OF _ keeps_observeReport] by simp
  show ?thesis
    using a c by (simp add: observeSuccess_def Let_def split: outcome.split)
qed

lemma keeps_timeoutAsSuccess: "keeps s (timeoutAsSuccess s)"
  unfolding timeoutAsSuccess_def
  by (rule keeps_trans [OF keeps_pushHistory keeps_counter])

lemma keeps_countFailure: "keeps s (countFailure s)"
  unfolding countFailure_def by (rule keeps_counter)

lemma keeps_suggestNext: "suggestNext s r = Returned s' \<Longrightarrow> keeps s s'"
  by (auto simp: suggestNext_def keeps_pushHistory keeps_refl split: if_splits outcome.splits)

lemma keeps_escalate: "keeps s (escalate s)"
  using keeps_trans [OF keeps_sendUpdate keeps_pushHistory]
  by (simp add: escalate_def keeps_refl)

lemma keeps_observeFailure: "keeps s (snd (observeFailure s r))"
proof (cases "isSubmitTimeout s r")
  case (Threw e)
  then show ?thesis by (simp add: observeFailure_def keeps_refl)
next
  case (Returned b)
  define s1 where "s1 = (if b then timeoutAsSuccess s else s)"
  have k1: "keeps s s1"
    unfolding s1_def using keeps_timeoutAsSuccess keeps_refl by simp
  have k2: "keeps s (countFailure s1)"
    by (rule keeps_trans [OF k1 keeps_countFailure])
  show ?thesis
  proof (cases "suggestNext (countFailure s1) r")
    case (Threw e)
    then show ?thesis
      using Returned k2 by (simp add: observeFailure_def Let_def s1_def)
  next
    case s3: (Returned s3)
    have "keeps s (observeReport (escalate s3) ('':x: Failed: '' @ str (error r)) r)"
      by (rule keeps_trans [OF k2 keeps_trans [OF keeps_suggestNext [OF s3]
              keeps_trans [OF keeps_escalate keeps_observeReport]]])
    then show ?thesis
      using Returned s3 by (simp add: observeFailure_def Let_def s1_def)
  qed
qed

lemma keeps_observe: "keeps s (snd (observe s r))"
  by (simp add: observe_def keeps_observeSuccess keeps_observeFailure)

lemma loopBody_cases:
  "loopBody w s = (f, s') \<Longrightarrow>
     keeps (s\<lparr>stepCount := stepCount s + 1\<rparr>) s' \<and> (f = Break \<longrightarrow> \<not> isRunning s')"
proof -
  assume lb: "loopBody w s = (f, s')"
  let ?s0 = "s\<lparr>stepCount := stepCount s + 1\<rparr>"
  obtain t s1 where th: "think w ?s0 = (t, s1)" by (cases "think w ?s0")
  have k1: "keeps ?s0 s1" using keeps_think [of ?s0 w] th by simp
  show ?thesis
  proof (cases t)
    case (Threw e)
    with lb th have "f = Continue" "s' = stepFailed s1 e"
      by (simp_all add: loopBody_def Let_def)
    then show ?thesis using keeps_trans [OF k1 keeps_stepFailed] by simp
  next
    case (Returned d)
    show ?thesis
    proof (cases "isRunning s1")
      case False
      with lb th Returned have "f = Break" "s' = s1"
        by (simp_all add: loopBody_def Let_def)
      then show ?thesis using k1 False by simp
    next
      case run1: True
      show ?thesis
      proof (cases "action d = ''finish''")
        case True
        with lb th Returned run1
        have "f = Break" "s' = stopTask (sendUpdate s1 ''system'' ('':check: Task completed: '' @ str (summary d)))"
          by (simp_all add: loopBody_def Let_def)
        then show ?thesis
          using keeps_trans [OF k1 keeps_trans [OF keeps_sendUpdate keeps_stopTask]]
          by (simp add: stopTask_def sendUpdate_def)
      next
        case nofin: False
        obtain a s2 where ac: "act w s1 d = (a, s2)" by (cases "act w s1 d")
        have k2: "keeps ?s0 s2"
          using keeps_trans [OF k1 keeps_act [of s1 w d]] ac by simp
        show ?thesis
        proof (cases a)
          case (Threw e)
          with lb th Returned run1 nofin ac have "f = Continue" "s' = stepFailed s2 e"
            by (simp_all add: loopBody_def Let_def)
          then show ?thesis using keeps_trans [OF k2 keeps_stepFailed] by simp
        next
          case res: (Returned r)
          show ?thesis
          proof (cases "isRunning s2")
            case False
            with lb th Returned run1 nofin ac res have "f = Break" "s' = s2"
              by (simp_all add: loopBody_def Let_def)
            then show ?thesis using k2 False by simp
          next
            case run2: True
            obtain ob s3 where obs: "observe s2 r = (ob, s3)" by (cases "observe s2 r")
            have k3: "keeps ?s0 s3"
              using keeps_trans [OF k2 keeps_observe [of s2 r]] obs by simp
            show ?thesis
            proof (cases ob)
              case (Threw e)
              with lb th Returned run1 nofin ac res run2 obs
              have "f = Continue" "s' = stepFailed s3 e"
                by (simp_all add: loopBody_def Let_def)
              then show ?thesis using keeps_trans [OF k3 keeps_stepFailed] by simp
            next
              case (Returned u)
              with lb th \<open>t = Returned d\<close> run1 nofin ac res run2 obs
              have "f = Continue" "s' = stopRequested (stopInSleep w) s3"
                by (simp_all add: loopBody_def Let_def)
              then show ?thesis using keeps_trans [OF k3 keeps_stopRequested] by simp
            qed
          qed
        qed
      qed
    qed
  qed
qed

text \<open>
  The \<^verbatim>\<open>while\<close> loop of \<^verbatim>\<open>agentLoop\<close>, started with the world's \<open>i\<close>-th step.
  It returns the agent after each pass through the body, in order, and the agent at the
  loop's exit.
\<close>

function agentLoop_while :: "(nat \<Rightarrow> world) \<Rightarrow> nat \<Rightarrow> agent \<Rightarrow> agent list \<times> agent" where
  "agentLoop_while env i s =
     (if isRunning s \<and> stepCount s < maxSteps s then
        (case loopBody (env i) s of
           (Break, s') \<Rightarrow> ([s'], s')
         | (Continue, s') \<Rightarrow>
             (let (passes, exit) = agentLoop_while env (Suc i) s' in (s' # passes, exit)))
      else ([], s))"
  by pat_completeness auto
termination
  apply (relation "measure (\<lambda>(env, i, s). if isRunning s then maxSteps s - stepCount s else 0)")
   apply simp
  apply (drule sym)
  apply (drule loopBody_cases)
  apply (auto simp: keeps_def)
  done

declare agentLoop_while.simps [simp del]

definition maxStepsReached :: "agent \<Rightarrow> agent" where
  "maxStepsReached s =
     (if stepCount s \<ge> maxSteps s
      then stopTask (sendUpdate s ''system'' '':alarm: Task reached maximum steps limit'')
      else s)"

definition agentLoop :: "(nat \<Rightarrow> world) \<Rightarrow> agent \<Rightarrow> agent list \<times> agent" where
  "agentLoop env s = (let (passes, exit) = agentLoop_while env 0 s in (passes, maxStepsReached exit))"

text \<open>
  \<^verbatim>\<open>startTask\<close>: \<open>beginTask\<close> is its part before the loop. Nothing thrown inside \<^verbatim>\<open>agentLoop\<close> leaves its own
  \<^verbatim>\<open>try\<close>, so the \<^verbatim>\<open>catch\<close> block of \<^verbatim>\<open>startTask\<close> is a handler of its own here:
  \<open>startTask_catch\<close>, applied to the agent as the error finds it.
\<close>

definition beginTask :: "string \<Rightarrow> nat \<Rightarrow> agent \<Rightarrow> agent" where
  "beginTask prompt tab s =
     (let s1 = s\<lparr>isRunning := True, currentTask := Some prompt, tabId := Some tab,
                 stepCount := 0, conversationHistory := [], lastAction := None,
                 actionHistory := [], consecutiveFailures := 0\<rparr>;
          s2 = sendUpdate s1 ''task_started'' ('':robot: Starting task: '' @ dq @ prompt @ dq);
          systemPrompt = getSystemPrompt
      in s2\<lparr>conversationHistory :=
              [\<lparr>role = ''system'', content = systemPrompt\<rparr>, \<lparr>role = ''user'', content = prompt\<rparr>]\<rparr>)"

definition startTask :: "(nat \<Rightarrow> world) \<Rightarrow> string \<Rightarrow> nat \<Rightarrow> agent \<Rightarrow> agent list \<times> agent" where
  "startTask env prompt tab s = agentLoop env (beginTask prompt tab s)"

definition startTask_catch :: "agent \<Rightarrow> string \<Rightarrow> agent" where
  "startTask_catch s e = stopTask (sendUpdate s ''system'' ('':x: Task failed: '' @ e))"

text \<open>
  Sample worlds. In \<open>stubbornWorld\<close> the oracle asks for the same \<^verbatim>\<open>type\<close> action
  at every step and the page accepts it; in \<open>finishingWorld\<close> its first answer is
  \<^verbatim>\<open>finish\<close>; in \<open>silentWorld\<close> it never sends a tool call.
\<close>

definition typeCall :: decision where
  "typeCall = \<lparr> action = ''type'', target = Some ''#q'', text_arg = Some ''headphones'',
     reasoning = Some ''Fill the search box'', summary = None \<rparr>"

definition finishCall :: decision where
  "finishCall = \<lparr> action = ''finish'', target = None, text_arg = None,
     reasoning = Some ''Nothing to do'', summary = Some ''done'' \<rparr>"

definition typedOk :: actionResult where
  "typedOk = \<lparr> success = True, message = Some ''Typed'', error = None, data = None \<rparr>"

definition answering :: "decision \<Rightarrow> world" where
  "answering d =
     \<lparr> chat = \<lparr> resp_success = True, resp_error = None,
                tool_call = Some \<lparr> call_name = ''browser_action'', arguments = d \<rparr> \<rparr>,
       stopInThink = False, tabsUpdate = None, toContent = Returned typedOk,
       stopInAct = False, stopInSleep = False \<rparr>"

definition stubbornWorld :: "nat \<Rightarrow> world" where
  "stubbornWorld i = answering typeCall"

definition finishingWorld :: "nat \<Rightarrow> world" where
  "finishingWorld i = answering finishCall"

definition silentWorld :: "nat \<Rightarrow> world" where
  "silentWorld i =
     \<lparr> chat = \<lparr> resp_success = True, resp_error = None, tool_call = None \<rparr>,
       stopInThink = False, tabsUpdate = None, toContent = Returned typedOk,
       stopInAct = False, stopInSleep = False \<rparr>"

text \<open>
  An agent that has just recorded the \<^verbatim>\<open>type\<close> decision, one that has just recorded a
  navigation, and one that has just extracted the page text.
\<close>

definition openCall :: decision where
  "openCall = \<lparr> action = ''open'', target = Some ''https://example.com'', text_arg = None,
     reasoning = Some ''Go to the site'', summary = None \<rparr>"

definition afterType :: agent where
  "afterType = recordAction (beginTask ''p'' 1 newAgent) typeCall"

definition afterOpen :: agent where
  "afterOpen = recordAction (beginTask ''p'' 1 newAgent) openCall"

definition afterFallback :: agent where
  "afterFallback = recordAction (beginTask ''p'' 1 newAgent) fallbackCall"

text \<open>No update of type \<open>task_completed\<close> among the updates sent.\<close>

definition noneCompleted :: "agent \<Rightarrow> bool" where
  "noneCompleted s = (''task_completed'' \<notin> set (map update_type (sent s)))"

section \<open>BrowserTools: click and extractText (src/content/browserTools.js)\<close>

text \<open>
  Text read from the page is a list of UTF-16 code units, each a number: what
  \<^verbatim>\<open>\s\<close>, \<^verbatim>\<open>trim\<close>, \<^verbatim>\<open>length\<close> and \<^verbatim>\<open>substring\<close> work on. \<open>utf16\<close> writes
  such a text from its Latin-1 characters.
\<close>

type_synonym domString = "nat list"

definition utf16 :: "string \<Rightarrow> domString" where
  "utf16 s = map of_char s"

text \<open>
  The page as the tools see it. \<open>querySelector\<close> and \<open>querySelectorAll\<close> are the
  document's (patched) queries on the caller's selector: the first gives the first
  matching element or \<^verbatim>\<open>null\<close>, the second the matching elements in document order;
  either throws on a selector that is not valid. The four queries with fixed selectors
  (\<^verbatim>\<open>h1, h2, h3\<close>; buttons; \<^verbatim>\<open>a[href]\<close>; form controls) are given by their
  results. Of an element only what the tools read is kept; the fields \<^verbatim>\<open>value\<close> and
  \<^verbatim>\<open>type\<close> and the attributes \<^verbatim>\<open>aria-label\<close> and \<^verbatim>\<open>name\<close> are named
  \<open>elem_value\<close>, \<open>elem_type\<close>, \<open>ariaLabel\<close> and \<open>nameAttr\<close>.
\<close>

record element =
  textContent :: "domString option"
  innerText :: "domString option"
  elem_value :: "domString option"
  elem_type :: "string option"
  tagName :: string
  placeholder :: "domString option"
  ariaLabel :: "domString option"
  nameAttr :: "domString option"

record page =
  title :: domString
  href :: string
  querySelector :: "string \<Rightarrow> element option outcome"
  querySelectorAll :: "string \<Rightarrow> element list outcome"
  headingElements :: "element list"
  buttonElements :: "element list"
  linkElements :: "element list"
  inputElements :: "element list"

record inputDescriptor =
  input_type :: "string option"
  input_placeholder :: "domString option"
  input_label :: "domString option"

record pageInfo =
  info_title :: domString
  info_url :: string
  headings :: "domString list"
  buttons :: "domString list"
  links :: "domString list"
  inputs :: "inputDescriptor list"

record extractResult =
  ex_success :: bool
  ex_message :: "string option"
  ex_error :: "string option"
  ex_selector :: "string option"
  ex_text :: "domString option"
  ex_pageInfo :: "pageInfo option"

record toolRecord =
  tool_action :: string
  tool_target :: string
  tool_data :: "string option"

record browserTools =
  tools_lastAction :: "toolRecord option"
  tools_actionHistory :: "toolRecord list"

text \<open>
  White space as \<^verbatim>\<open>\s\<close> and \<^verbatim>\<open>trim\<close> see it: tab to carriage return, space,
  no-break space, U+1680, U+2000 to U+200A, the line and paragraph separators, U+202F,
  U+205F, U+3000 and the byte order mark.
\<close>

definition isSpace :: "nat \<Rightarrow> bool" where
  "isSpace c =
     ((0x09 \<le> c \<and> c \<le> 0x0D) \<or> c = 0x20 \<or> c = 0xA0 \<or> c = 0x1680
      \<or> (0x2000 \<le> c \<and> c \<le> 0x200A) \<or> c = 0x2028 \<or> c = 0x2029 \<or> c = 0x202F
      \<or> c = 0x205F \<or> c = 0x3000 \<or> c = 0xFEFF)"

text \<open>No two white-space code units in a row.\<close>

definition noSpaceRun :: "domString \<Rightarrow> bool" where
  "noSpaceRun s = successively (\<lambda>a b. \<not> (isSpace a \<and> isSpace b)) s"

text \<open>\<^verbatim>\<open>text.replace(/\s+/g, ' ')\<close>: every maximal run of white space becomes one space.\<close>

function collapseSpaces :: "domString \<Rightarrow> domString" where
  "collapseSpaces [] = []"
| "collapseSpaces (c # cs) =
     (if isSpace c then 0x20 # collapseSpaces (dropWhile isSpace cs)
      else c # collapseSpaces cs)"
  by pat_completeness auto
termination
  by (relation "measure length") (auto simp: length_dropWhile_le less_Suc_eq_le)

definition trim :: "domString \<Rightarrow> domString" where
  "trim s = rev (dropWhile isSpace (rev (dropWhile isSpace s)))"

definition toLowerCase :: "string \<Rightarrow> string" where
  "toLowerCase s =
     map (\<lambda>c. if (65 :: nat) \<le> of_char c \<and> of_char c \<le> (90 :: nat)
              then char_of (of_char c + (32 :: nat)) else c) s"

fun join :: "'a list \<Rightarrow> 'a list list \<Rightarrow> 'a list" where
  "join sep [] = []"
| "join sep [x] = x"
| "join sep (x # y # ys) = x @ sep @ join sep (y # ys)"

definition orEmpty :: "'a list option \<Rightarrow> 'a list" where
  "orEmpty x = (case x of None \<Rightarrow> [] | Some s \<Rightarrow> s)"

text \<open>The text of one matching element (lines 145 to 149).\<close>

definition normalizedText :: "element \<Rightarrow> domString" where
  "normalizedText el =
     (let text = orEmpty (js_or (js_or (textContent el) (innerText el)) (Some []))
      in trim (collapseSpaces text))"

text \<open>\<^verbatim>\<open>filter(Boolean)\<close> on possibly undefined strings.\<close>

definition filterBoolean :: "'a list option list \<Rightarrow> 'a list list" where
  "filterBoolean xs = map orEmpty (filter truthy xs)"

definition describeInput :: "element \<Rightarrow> inputDescriptor" where
  "describeInput input =
     \<lparr> input_type = js_or (elem_type input) (Some (toLowerCase (tagName input))),
       input_placeholder = js_or (placeholder input) (Some []),
       input_label = js_or (js_or (ariaLabel input) (nameAttr input)) (Some []) \<rparr>"

definition getPageInfo :: "page \<Rightarrow> pageInfo" where
  "getPageInfo p =
     \<lparr> info_title = title p,
       info_url = href p,
       headings = slice_first 10
         (filterBoolean (map (\<lambda>h. map_option trim (textContent h)) (headingElements p))),
       buttons = slice_first 10
         (filterBoolean (map (\<lambda>btn. js_or (map_option trim (textContent btn))
                                        (map_option trim (elem_value btn)))
                         (buttonElements p))),
       links = slice_first 10
         (filterBoolean (map (\<lambda>a. map_option trim (textContent a)) (linkElements p))),
       inputs = slice_first 10 (map describeInput (inputElements p)) \<rparr>"

text \<open>\<^verbatim>\<open>BrowserTools.recordAction\<close>: the log of the last 50 actions.\<close>

definition tools_recordAction :: "browserTools \<Rightarrow> string \<Rightarrow> string \<Rightarrow> string option \<Rightarrow> browserTools" where
  "tools_recordAction b a t d =
     (let actionRecord = \<lparr> tool_action = a, tool_target = t, tool_data = d \<rparr>;
          b1 = b\<lparr>tools_lastAction := Some actionRecord,
                 tools_actionHistory := tools_actionHistory b @ [actionRecord]\<rparr>
      in if length (tools_actionHistory b1) > 50
         then b1\<lparr>tools_actionHistory := slice_last 50 (tools_actionHistory b1)\<rparr>
         else b1)"

text \<open>
  \<^verbatim>\<open>click(selector)\<close> (lines 38 to 76). Its result is the reply the agent's ACT step
  receives for a \<open>click\<close>, through \<^verbatim>\<open>executeAction\<close> and the content script; of the
  result object the fields the agent reads are kept.
\<close>

definition click :: "page \<Rightarrow> browserTools \<Rightarrow> string \<Rightarrow> actionResult \<times> browserTools" where
  "click p b selector =
     (case querySelector p selector of
        Threw e \<Rightarrow>
          (\<lparr> success = False, message = None, error = Some (''Click failed: '' @ e),
             data = None \<rparr>, b)
      | Returned None \<Rightarrow>
          (\<lparr> success = False, message = None,
             error = Some (''Element not found: '' @ selector), data = None \<rparr>, b)
      | Returned (Some element) \<Rightarrow>
          (\<lparr> success = True, message = Some (''Clicked: '' @ selector), error = None,
             data = None \<rparr>,
           tools_recordAction b ''click'' selector None))"

text \<open>
  \<^verbatim>\<open>extractText(selector = 'body')\<close>: an undefined selector is \<open>None\<close>. Whatever is
  thrown inside is caught and reported as a failed extraction.
\<close>

definition extractText :: "page \<Rightarrow> browserTools \<Rightarrow> string option \<Rightarrow> extractResult \<times> browserTools" where
  "extractText p b sel =
     (let selector = (case sel of None \<Rightarrow> ''body'' | Some s \<Rightarrow> s)
      in case querySelectorAll p selector of
           Threw e \<Rightarrow>
             (\<lparr> ex_success = False, ex_message = None,
                ex_error = Some (''Text extraction failed: '' @ e),
                ex_selector = None, ex_text = None, ex_pageInfo = None \<rparr>, b)
         | Returned elements \<Rightarrow>
             if length elements = 0 then
               (\<lparr> ex_success = False, ex_message = None,
                  ex_error = Some (''No elements found: '' @ selector),
                  ex_selector = Some selector, ex_text = None, ex_pageInfo = None \<rparr>, b)
             else
               (let extractedText =
                      join [0x0A, 0x0A]
                        (filter (\<lambda>text. length text > 0) (map normalizedText elements));
                    info = getPageInfo p;
                    b' = tools_recordAction b ''extract_text'' selector None
                in (\<lparr> ex_success = True,
                      ex_message = Some (''Extracted text from: '' @ selector),
                      ex_error = None,
                      ex_selector = Some selector,
                      ex_text = Some (take 5000 extractedText),
                      ex_pageInfo = Some info \<rparr>, b')))"

text \<open>
  A page with one heading, twelve links, one button that \<open>button.go\<close> finds, and three
  paragraphs with untidy white space, one of them holding only an ideographic space. The
  selector \<open>###\<close> is not valid: both queries throw the browser's SyntaxError.
\<close>

definition plainElement :: "domString \<Rightarrow> element" where
  "plainElement t =
     \<lparr> textContent = Some t, innerText = Some t, elem_value = None, elem_type = None,
       tagName = ''DIV'', placeholder = None, ariaLabel = None, nameAttr = None \<rparr>"

definition invalidSelector :: "string \<Rightarrow> string \<Rightarrow> string" where
  "invalidSelector method sel =
     ''Failed to execute '' @ sq @ method @ sq @ '' on '' @ sq @ ''Document'' @ sq @ '': ''
       @ sq @ sel @ sq @ '' is not a valid selector.''"

definition samplePage :: page where
  "samplePage =
     \<lparr> title = utf16 ''Shop'', href = ''https://example.com/'',
       querySelector = (\<lambda>sel.
          if sel = ''button.go'' then Returned (Some (plainElement (utf16 ''Go'')))
          else if sel = ''###'' then Threw (invalidSelector ''querySelector'' sel)
          else Returned None),
       querySelectorAll = (\<lambda>sel.
          if sel = ''p'' then Returned [plainElement (utf16 ''  Hello   world ''),
                                        plainElement [0x0A, 0x3000],
                                        plainElement (utf16 ''a'' @ [0x09, 0x2028] @ utf16 ''b'')]
          else if sel = ''###'' then Threw (invalidSelector ''querySelectorAll'' sel)
          else Returned []),
       headingElements = [plainElement (utf16 '' Welcome '')],
       buttonElements = [plainElement (utf16 ''Go'')],
       linkElements = map (\<lambda>i. plainElement (utf16 ''link'')) [0..<12],
       inputElements = [] \<rparr>"

definition freshTools :: browserTools where
  "freshTools = \<lparr> tools_lastAction = None, tools_actionHistory = [] \<rparr>"

section \<open>Sample runs through ACT and OBSERVE\<close>

text \<open>
  A world step in which the oracle asks for a click on a selector and the reply is what
  \<open>click\<close> returns for it on the sample page; and the agent as OBSERVE receives it in a
  pass started from a given agent.
\<close>

definition clickCall :: "string \<Rightarrow> decision" where
  "clickCall sel = \<lparr> action = ''click'', target = Some sel, text_arg = None,
     reasoning = Some ''Click it'', summary = None \<rparr>"

definition clicking :: "string \<Rightarrow> world" where
  "clicking sel =
     \<lparr> chat = \<lparr> resp_success = True, resp_error = None,
                tool_call = Some \<lparr> call_name = ''browser_action'', arguments = clickCall sel \<rparr> \<rparr>,
       stopInThink = False, tabsUpdate = None,
       toContent = Returned (fst (click samplePage freshTools sel)),
       stopInAct = False, stopInSleep = False \<rparr>"




definition submitTimeoutWorld :: "nat \<Rightarrow> world" where
  "submitTimeoutWorld i =
     (if i = 0 then clicking ''.missing''
      else if i = 1 then (clicking ''input[type=submit]'')
                           \<lparr>toContent := Threw ''Action timeout after 10 seconds''\<rparr>
      else answering finishCall)"



definition timeoutRun :: "agent list" where
  "timeoutRun = fst (startTask submitTimeoutWorld ''p'' 1 newAgent)"





section \<open>Properties of the persisted lists\<close>

lemma length_slice_first: "length (slice_first n xs) \<le> n"
  by (simp add: slice_first_def)

lemma length_slice_last: "length (slice_last n xs) \<le> n"
  by (simp add: slice_last_def)

lemma slice_last_suffix: "\<exists>ys. xs = ys @ slice_last n xs"
  by (metis append_take_drop_id slice_last_def)

lemma slice_last_short: "length xs \<le> n \<Longrightarrow> slice_last n xs = xs"
  by (simp add: slice_last_def)

lemma length_slice_last_min: "length (slice_last n xs) = min n (length xs)"
  by (simp add: slice_last_def)

lemma addSuccessfulItem_written:
  "ADDED_ITEMS (snd (addSuccessfulItem getFails False fresh now st d)) =
     Some (newItem fresh now d # take 49 (getAddedItems getFails st))"
  by (simp add: addSuccessfulItem_def set_ADDED_ITEMS_def slice_first_def Let_def)

lemma addSuccessfulItem_not_written:
  "snd (addSuccessfulItem getFails True fresh now st d) = st"
  by (simp add: addSuccessfulItem_def set_ADDED_ITEMS_def Let_def)

lemma saveChatHistory_written:
  "CHAT_HISTORY (snd (saveChatHistory False st messages)) = Some (slice_last 100 messages)"
  by (simp add: saveChatHistory_def set_CHAT_HISTORY_def Let_def)

lemma saveChatHistory_not_written:
  "snd (saveChatHistory True st messages) = st"
  by (simp add: saveChatHistory_def set_CHAT_HISTORY_def Let_def)

text \<open>
  C10. Every write keeps the bounds. A successful \<open>addSuccessfulItem\<close> stores the new
  item at the front, followed by the first 49 of the items read, so at most 50 items;
  a successful \<open>saveChatHistory\<close> stores exactly the last \<open>min 100 n\<close> of the \<open>n\<close>
  messages given, in their order. A write that the store refuses changes nothing, so
  both bounds are invariants of the store under both operations.
\<close>

theorem persisted_lists_keep_bounds:
  fixes st :: "'m storage"
  shows "(ADDED_ITEMS (snd (addSuccessfulItem getFails False fresh now st d)) =
            Some (newItem fresh now d # take 49 (getAddedItems getFails st))
          \<and> length (newItem fresh now d # take 49 (getAddedItems getFails st)) \<le> 50)
       \<and> (itemsBounded st \<longrightarrow> itemsBounded (snd (addSuccessfulItem getFails setFails fresh now st d)))
       \<and> (CHAT_HISTORY (snd (saveChatHistory False st messages)) = Some (slice_last 100 messages)
          \<and> length (slice_last 100 messages) = min 100 (length messages)
          \<and> (\<exists>older. messages = older @ slice_last 100 messages))
       \<and> (chatBounded st \<longrightarrow> chatBounded (snd (saveChatHistory setFails st messages)))"
proof -
  have items: "itemsBounded st \<longrightarrow> itemsBounded (snd (addSuccessfulItem getFails setFails fresh now st d))"
  proof (cases setFails)
    case True
    then show ?thesis by (simp add: addSuccessfulItem_not_written)
  next
    case False
    then show ?thesis by (simp add: itemsBounded_def addSuccessfulItem_written)
  qed
  have chat: "chatBounded st \<longrightarrow> chatBounded (snd (saveChatHistory setFails st messages))"
  proof (cases setFails)
    case True
    then show ?thesis by (simp add: saveChatHistory_not_written)
  next
    case False
    then show ?thesis
      by (simp add: chatBounded_def saveChatHistory_written length_slice_last)
  qed
  show ?thesis
    using items chat slice_last_suffix [of messages 100]
    by (simp add: addSuccessfulItem_written saveChatHistory_written length_slice_last_min)
qed

theorem persisted_lists_keep_bounds_witness:
  "itemsBounded fullStore \<and> chatBounded fullStore
   \<and> ADDED_ITEMS (snd (addSuccessfulItem False False (1700000000000 + 1 / 4) ''now'' fullStore sampleData)) =
       Some (newItem (1700000000000 + 1 / 4) ''now'' sampleData # map sampleItem [0..<49])
   \<and> item_site (newItem (1700000000000 + 1 / 4) ''now'' sampleData) = Some ''unknown''
   \<and> item_name (newItem (1700000000000 + 1 / 4) ''now'' sampleData) = Some ''Unknown Product''
   \<and> itemsBounded (snd (addSuccessfulItem False False (1700000000000 + 1 / 4) ''now'' fullStore sampleData))
   \<and> CHAT_HISTORY (snd (saveChatHistory False fullStore [0..<101])) = Some [1..<101]
   \<and> chatBounded (snd (saveChatHistory False fullStore [0..<101]))"
proof -
  have b: "itemsBounded fullStore" "chatBounded fullStore"
    by (simp_all add: itemsBounded_def chatBounded_def fullStore_def)
  have g: "getAddedItems False fullStore = map sampleItem [0..<50]"
    by (simp add: getAddedItems_def get_ADDED_ITEMS_def fullStore_def)
  have t: "take 49 (map sampleItem [0..<50]) = map sampleItem [0..<49]"
    by (simp add: take_map)
  have s: "slice_last 100 [0..<101] = [1..<101]"
    by (simp add: slice_last_def)
  have n: "item_site (newItem (1700000000000 + 1 / 4) ''now'' sampleData) = Some ''unknown''"
    "item_name (newItem (1700000000000 + 1 / 4) ''now'' sampleData) = Some ''Unknown Product''"
    by (simp_all add: newItem_def sampleData_def js_or_def truthy_def)
  show ?thesis
    using b n persisted_lists_keep_bounds
      [of False "1700000000000 + 1 / 4" "''now''" fullStore sampleData False "[0..<101]"]
    by (simp add: g t s)
qed

section \<open>Properties of the transport\<close>









lemma backoffDelay_table:
  "map backoffDelay [1, 2, 3, 4] = [1000, 2000, 4000, 5000]"
  by (simp add: backoffDelay_def)






lemma flakyTab_run:
  "sendMessageToTab flakyTab =
     (Returned (Some ''ok''),
      [SendMessage 1, ExecuteScript True, SettleWait 1000, BackoffWait 1000,
       SendMessage 2, ExecuteScript False, BackoffWait 2000,
       SendMessage 3, BackoffWait 4000,
       SendMessage 4])"
  by (simp add: sendMessageToTab_def sendMessageToTab_from.simps flakyTab_def reinject_def
      isCacheError_def backoffDelay_def)



section \<open>Properties of the agent loop\<close>

lemma agentLoop_while_stop:
  "\<not> (isRunning s \<and> stepCount s < maxSteps s) \<Longrightarrow> agentLoop_while env i s = ([], s)"
  by (subst agentLoop_while.simps) auto

lemma agentLoop_while_Break:
  "isRunning s \<Longrightarrow> stepCount s < maxSteps s \<Longrightarrow> loopBody (env i) s = (Break, s') \<Longrightarrow>
   agentLoop_while env i s = ([s'], s')"
  by (subst agentLoop_while.simps) simp

lemma agentLoop_while_Continue:
  "isRunning s \<Longrightarrow> stepCount s < maxSteps s \<Longrightarrow> loopBody (env i) s = (Continue, s') \<Longrightarrow>
   agentLoop_while env i s =
     (s' # fst (agentLoop_while env (Suc i) s'), snd (agentLoop_while env (Suc i) s'))"
  by (subst agentLoop_while.simps) (simp add: case_prod_unfold Let_def)

text \<open>The invariant of the loop, from any agent whose counter is within the budget.\<close>

lemma agentLoop_while_inv:
  "stepCount s \<le> maxSteps s \<Longrightarrow>
   length (fst (agentLoop_while env i s)) \<le> (if isRunning s then maxSteps s - stepCount s else 0)
   \<and> (\<forall>t \<in> set (fst (agentLoop_while env i s)). stepCount t \<le> maxSteps s \<and> maxSteps t = maxSteps s)
   \<and> snd (agentLoop_while env i s) = last (s # fst (agentLoop_while env i s))
   \<and> maxSteps (snd (agentLoop_while env i s)) = maxSteps s
   \<and> (isRunning (snd (agentLoop_while env i s)) \<longrightarrow>
        isRunning s \<and> stepCount (snd (agentLoop_while env i s)) = maxSteps s
        \<and> length (fst (agentLoop_while env i s)) = maxSteps s - stepCount s)
   \<and> (isRunning s \<and> \<not> isRunning (snd (agentLoop_while env i s)) \<longrightarrow>
        stepCount (snd (agentLoop_while env i s)) = 0)
   \<and> (\<forall>k < length (fst (agentLoop_while env i s)).
        isRunning ((s # fst (agentLoop_while env i s)) ! k)
        \<and> stepCount ((s # fst (agentLoop_while env i s)) ! k) < maxSteps s)"
proof (induction env i s rule: agentLoop_while.induct)
  case (1 env i s)
  show ?case
  proof (cases "isRunning s \<and> stepCount s < maxSteps s")
    case False
    then show ?thesis
      using "1.prems" by (auto simp: agentLoop_while_stop)
  next
    case g: True
    obtain f s' where lb: "loopBody (env i) s = (f, s')" by (cases "loopBody (env i) s")
    from loopBody_cases [OF lb]
    have k: "keeps (s\<lparr>stepCount := stepCount s + 1\<rparr>) s'" and b: "f = Break \<longrightarrow> \<not> isRunning s'"
      by simp_all
    from k g have ms: "maxSteps s' = maxSteps s" and sc: "stepCount s' \<le> stepCount s + 1"
      and run: "isRunning s' \<longrightarrow> stepCount s' = stepCount s + 1"
      and stopped: "\<not> isRunning s' \<longrightarrow> stepCount s' = 0"
      by (auto simp: keeps_def)
    show ?thesis
    proof (cases f)
      case Break
      with lb g have eq: "agentLoop_while env i s = ([s'], s')"
        by (simp add: agentLoop_while_Break)
      have "Suc 0 \<le> maxSteps s - stepCount s" using g by arith
      then show ?thesis
        using g ms sc b Break stopped by (simp add: eq)
    next
      case Continue
      let ?r = "agentLoop_while env (Suc i) s'"
      have eq: "agentLoop_while env i s = (s' # fst ?r, snd ?r)"
        using lb g Continue by (simp add: agentLoop_while_Continue)
      have le': "stepCount s' \<le> maxSteps s'" using ms sc g by simp
      note ih = "1.IH" [OF g lb [symmetric] Continue le']
      from ih have len: "length (fst ?r) \<le> (if isRunning s' then maxSteps s' - stepCount s' else 0)"
        and all: "\<forall>t \<in> set (fst ?r). stepCount t \<le> maxSteps s' \<and> maxSteps t = maxSteps s'"
        and lst: "snd ?r = last (s' # fst ?r)"
        and mx: "maxSteps (snd ?r) = maxSteps s'"
        and rn: "isRunning (snd ?r) \<longrightarrow>
            isRunning s' \<and> stepCount (snd ?r) = maxSteps s'
            \<and> length (fst ?r) = maxSteps s' - stepCount s'"
        and st: "isRunning s' \<and> \<not> isRunning (snd ?r) \<longrightarrow> stepCount (snd ?r) = 0"
        and en: "\<forall>k < length (fst ?r).
            isRunning ((s' # fst ?r) ! k) \<and> stepCount ((s' # fst ?r) ! k) < maxSteps s'"
        by blast+
      have c1: "length (s' # fst ?r) \<le> maxSteps s - stepCount s"
        using len run ms g by (cases "isRunning s'") auto
      have c2: "\<forall>t \<in> set (s' # fst ?r). stepCount t \<le> maxSteps s \<and> maxSteps t = maxSteps s"
        using all ms le' by simp
      have c3: "snd ?r = last (s # s' # fst ?r)" using lst by simp
      have c5: "isRunning (snd ?r) \<longrightarrow>
          stepCount (snd ?r) = maxSteps s \<and> length (s' # fst ?r) = maxSteps s - stepCount s"
        using rn run ms g by auto
      have c6: "\<not> isRunning (snd ?r) \<longrightarrow> stepCount (snd ?r) = 0"
      proof (cases "isRunning s'")
        case True
        then show ?thesis using st by simp
      next
        case False
        then have "agentLoop_while env (Suc i) s' = ([], s')"
          by (simp add: agentLoop_while_stop)
        then show ?thesis using stopped False by simp
      qed
      have c7: "\<forall>k < length (s' # fst ?r).
          isRunning ((s # s' # fst ?r) ! k) \<and> stepCount ((s # s' # fst ?r) ! k) < maxSteps s"
      proof (intro allI impI)
        fix k assume k: "k < length (s' # fst ?r)"
        show "isRunning ((s # s' # fst ?r) ! k) \<and> stepCount ((s # s' # fst ?r) ! k) < maxSteps s"
        proof (cases k)
          case 0
          then show ?thesis using g by simp
        next
          case (Suc j)
          with k have "j < length (fst ?r)" by simp
          with en ms Suc show ?thesis by simp
        qed
      qed
      show ?thesis
        unfolding eq fst_conv snd_conv
        using g c1 c2 c3 mx ms c5 c6 c7 by simp
    qed
  qed
qed

lemma isRunning_maxStepsReached:
  "\<not> isRunning s \<or> stepCount s \<ge> maxSteps s \<Longrightarrow> \<not> isRunning (maxStepsReached s)"
  by (auto simp: maxStepsReached_def stopTask_def sendUpdate_def)

lemma beginTask_fields:
  "isRunning (beginTask prompt tab s)" "stepCount (beginTask prompt tab s) = 0"
  "maxSteps (beginTask prompt tab s) = maxSteps s"
  by (simp_all add: beginTask_def sendUpdate_def Let_def)

text \<open>
  A pass in which no stop request arrives and THINK does not decide \<open>finish\<close> goes back
  to the loop test with the agent still running.
\<close>

lemma isRunning_stopRequested_False: "stopRequested False s = s"
  by (simp add: stopRequested_def)

lemma isRunning_think:
  "\<not> stopInThink w \<Longrightarrow> isRunning (snd (think w s)) = isRunning s"
  by (simp add: think_def Let_def stopRequested_def sendUpdate_def recordAction_def)

lemma isRunning_act:
  "\<not> stopInAct w \<Longrightarrow> isRunning (snd (act w s d)) = isRunning s"
  by (simp add: act_state stopRequested_def sendUpdate_def)

lemma isRunning_stepFailed: "isRunning (stepFailed s e) = isRunning s"
  by (simp add: stepFailed_def pushHistory_def sendUpdate_def)

lemma isRunning_observeReport: "isRunning (observeReport s m r) = isRunning s"
  by (simp add: observeReport_def pushHistory_def sendUpdate_def)

lemma isRunning_escalate: "isRunning (escalate s) = isRunning s"
  by (simp add: escalate_def pushHistory_def sendUpdate_def)

lemma isRunning_suggestNext: "suggestNext s r = Returned s' \<Longrightarrow> isRunning s' = isRunning s"
  by (auto simp: suggestNext_def pushHistory_def split: if_splits outcome.splits)

lemma isRunning_observe: "isRunning (snd (observe s r)) = isRunning s"
proof (cases "success r")
  case True
  then show ?thesis
    by (simp add: observe_def observeSuccess_def Let_def isRunning_observeReport pushHistory_def
        split: outcome.split)
next
  case False
  show ?thesis
  proof (cases "isSubmitTimeout s r")
    case (Threw e)
    then show ?thesis using False by (simp add: observe_def observeFailure_def)
  next
    case (Returned b)
    define s2 where "s2 = countFailure (if b then timeoutAsSuccess s else s)"
    have r2: "isRunning s2 = isRunning s"
      by (simp add: s2_def countFailure_def timeoutAsSuccess_def pushHistory_def)
    show ?thesis
    proof (cases "suggestNext s2 r")
      case (Threw e)
      then show ?thesis
        using False Returned r2 by (simp add: observe_def observeFailure_def Let_def s2_def)
    next
      case s3: (Returned s3)
      then show ?thesis
        using False Returned r2 isRunning_suggestNext [OF s3]
        by (simp add: observe_def observeFailure_def Let_def s2_def [symmetric]
            isRunning_observeReport isRunning_escalate)
    qed
  qed
qed

lemma loopBody_running:
  assumes run: "isRunning s"
    and quiet: "\<not> stopInThink w" "\<not> stopInAct w" "\<not> stopInSleep w"
    and nofinish: "\<forall>d. fst (think w (s\<lparr>stepCount := stepCount s + 1\<rparr>)) = Returned d \<longrightarrow> action d \<noteq> ''finish''"
  shows "fst (loopBody w s) = Continue \<and> isRunning (snd (loopBody w s))"
proof -
  let ?s0 = "s\<lparr>stepCount := stepCount s + 1\<rparr>"
  obtain t s1 where th: "think w ?s0 = (t, s1)" by (cases "think w ?s0")
  have r1: "isRunning s1" using isRunning_think [OF quiet(1), of ?s0] th run by simp
  show ?thesis
  proof (cases t)
    case (Threw e)
    with th r1 show ?thesis by (simp add: loopBody_def Let_def isRunning_stepFailed)
  next
    case d: (Returned d)
    with nofinish th have nf: "action d \<noteq> ''finish''" by simp
    obtain a s2 where ac: "act w s1 d = (a, s2)" by (cases "act w s1 d")
    have r2: "isRunning s2" using isRunning_act [OF quiet(2), of s1 d] ac r1 by simp
    show ?thesis
    proof (cases a)
      case (Threw e)
      with th d r1 nf ac r2 show ?thesis
        by (simp add: loopBody_def Let_def isRunning_stepFailed)
    next
      case res: (Returned r)
      obtain ob s3 where obs: "observe s2 r = (ob, s3)" by (cases "observe s2 r")
      have r3: "isRunning s3" using isRunning_observe [of s2 r] obs r2 by simp
      show ?thesis
        using th d r1 nf ac res r2 obs r3 quiet(3)
        by (cases ob) (simp_all add: loopBody_def Let_def isRunning_stepFailed stopRequested_def)
    qed
  qed
qed

text \<open>
  C1. Whatever the world does (oracle answers, page results, stop requests), a task
  started by \<open>startTask\<close> makes at most \<open>maxSteps\<close> passes through THINK, ACT, OBSERVE
  (10 for an agent as constructed); every pass is entered by a running agent whose step
  counter is below \<open>maxSteps\<close>, so that the increment at its start does not exceed it,
  and the step counter is at most \<open>maxSteps\<close> after every pass; and the task ends in a
  state that is not running. If the agent is still running
  when the loop is left (no finish decision and no stop request ended the task), then
  exactly \<open>maxSteps\<close> passes were made and the last two updates sent are the
  maximum-steps message and the \<open>task_aborted\<close> of \<open>stopTask\<close>; if it is not, and the
  budget is positive, nothing more is sent.
\<close>

theorem agentLoop_within_step_budget:
  fixes env :: "nat \<Rightarrow> world" and prompt :: string and tab :: nat and s :: agent
  defines "start \<equiv> beginTask prompt tab s"
      and "passes \<equiv> fst (startTask env prompt tab s)"
      and "final \<equiv> snd (startTask env prompt tab s)"
  shows "length passes \<le> maxSteps s
    \<and> (maxSteps s = maxSteps newAgent \<longrightarrow> length passes \<le> 10)
    \<and> stepCount start \<le> maxSteps s
    \<and> (\<forall>k < length passes.
          isRunning ((start # passes) ! k) \<and> stepCount ((start # passes) ! k) < maxSteps s)
    \<and> (\<forall>t \<in> set passes. stepCount t \<le> maxSteps s \<and> maxSteps t = maxSteps s)
    \<and> \<not> isRunning final
    \<and> (isRunning (last (start # passes)) \<longrightarrow>
          length passes = maxSteps s
          \<and> sent final = sent (last (start # passes)) @
               [\<lparr>update_type = ''system'', update_message = '':alarm: Task reached maximum steps limit''\<rparr>,
                \<lparr>update_type = ''task_aborted'', update_message = '':stop_sign: Task aborted by user''\<rparr>])
    \<and> (\<not> isRunning (last (start # passes)) \<and> 0 < maxSteps s \<longrightarrow> final = last (start # passes))"
proof -
  let ?r = "agentLoop_while env 0 start"
  have p: "passes = fst ?r" and f: "final = maxStepsReached (snd ?r)"
    by (simp_all add: passes_def final_def startTask_def agentLoop_def start_def case_prod_unfold
        Let_def)
  have st: "isRunning start" "stepCount start = 0" "maxSteps start = maxSteps s"
    by (simp_all add: start_def beginTask_fields)
  have le: "stepCount start \<le> maxSteps start" using st by simp
  note inv = agentLoop_while_inv [OF le, of env 0]
  from inv have len0: "length (fst ?r) \<le> (if isRunning start then maxSteps start - stepCount start else 0)"
    by blast
  from inv have all0: "\<forall>t \<in> set (fst ?r). stepCount t \<le> maxSteps start \<and> maxSteps t = maxSteps start"
    by blast
  from inv have ex0: "snd ?r = last (start # fst ?r)"
    by blast
  from inv have mx0: "maxSteps (snd ?r) = maxSteps start"
    by blast
  from inv have rn0: "isRunning (snd ?r) \<longrightarrow>
        isRunning start \<and> stepCount (snd ?r) = maxSteps start
        \<and> length (fst ?r) = maxSteps start - stepCount start"
    by blast
  from inv have sp0: "isRunning start \<and> \<not> isRunning (snd ?r) \<longrightarrow> stepCount (snd ?r) = 0"
    by blast
  from inv have en0: "\<forall>k < length (fst ?r).
        isRunning ((start # fst ?r) ! k) \<and> stepCount ((start # fst ?r) ! k) < maxSteps start"
    by blast
  have en: "\<forall>k < length passes.
        isRunning ((start # passes) ! k) \<and> stepCount ((start # passes) ! k) < maxSteps s"
    using en0 st p by simp
  have len: "length passes \<le> maxSteps s" using len0 st p by simp
  have all: "\<forall>t \<in> set passes. stepCount t \<le> maxSteps s \<and> maxSteps t = maxSteps s"
    using all0 st p by simp
  have ex: "snd ?r = last (start # passes)" using ex0 p by simp
  have mx: "maxSteps (snd ?r) = maxSteps s" using mx0 st by simp
  have rn: "isRunning (snd ?r) \<longrightarrow> stepCount (snd ?r) = maxSteps s \<and> length passes = maxSteps s"
    using rn0 st p by simp
  have sp: "\<not> isRunning (snd ?r) \<longrightarrow> stepCount (snd ?r) = 0" using sp0 st by simp
  have notrun: "\<not> isRunning final"
    unfolding f using rn mx by (intro isRunning_maxStepsReached) auto
  have exhausted: "isRunning (last (start # passes)) \<longrightarrow>
          length passes = maxSteps s
          \<and> sent final = sent (last (start # passes)) @
               [\<lparr>update_type = ''system'', update_message = '':alarm: Task reached maximum steps limit''\<rparr>,
                \<lparr>update_type = ''task_aborted'', update_message = '':stop_sign: Task aborted by user''\<rparr>]"
    using rn mx unfolding f ex [symmetric]
    by (simp add: maxStepsReached_def stopTask_def sendUpdate_def)
  have ended: "\<not> isRunning (last (start # passes)) \<and> 0 < maxSteps s \<longrightarrow> final = last (start # passes)"
    using sp mx unfolding f ex [symmetric]
    by (simp add: maxStepsReached_def)
  show ?thesis
    using len all en notrun exhausted ended st by (simp add: newAgent_def)
qed

text \<open>
  The stubborn oracle never finishes: ten passes with step counters 1 to 10, then the
  maximum-steps message and the stop.
\<close>

theorem agentLoop_within_step_budget_witness:
  "maxSteps newAgent = 10
   \<and> isRunning (last (beginTask ''p'' 1 newAgent # fst (startTask stubbornWorld ''p'' 1 newAgent)))
   \<and> map stepCount (fst (startTask stubbornWorld ''p'' 1 newAgent)) = [1, 2, 3, 4, 5, 6, 7, 8, 9, 10]
   \<and> \<not> isRunning (snd (startTask stubbornWorld ''p'' 1 newAgent))
   \<and> sent (snd (startTask stubbornWorld ''p'' 1 newAgent)) =
       sent (last (beginTask ''p'' 1 newAgent # fst (startTask stubbornWorld ''p'' 1 newAgent))) @
         [\<lparr>update_type = ''system'', update_message = '':alarm: Task reached maximum steps limit''\<rparr>,
          \<lparr>update_type = ''task_aborted'', update_message = '':stop_sign: Task aborted by user''\<rparr>]"
proof -
  have m: "maxSteps newAgent = 10" by (simp add: newAgent_def)
  have r: "isRunning (last (beginTask ''p'' 1 newAgent # fst (startTask stubbornWorld ''p'' 1 newAgent)))"
    by code_simp
  have c: "map stepCount (fst (startTask stubbornWorld ''p'' 1 newAgent)) = [1, 2, 3, 4, 5, 6, 7, 8, 9, 10]"
    by code_simp
  show ?thesis
    using m r c agentLoop_within_step_budget
        [where env = stubbornWorld and prompt = "''p''" and tab = 1 and s = newAgent]
    by simp
qed

section \<open>Properties of THINK: fallback and loop guard\<close>

lemma isRepeatingAction_iff:
  "isRepeatingAction s d \<longleftrightarrow>
     (\<exists>l. lastAction s = Some l \<and> rec_action l = action d \<and> rec_target l = target d)
     \<or> (\<exists>a \<in> set (slice_last 2 (actionHistory s)). rec_action a = action d \<and> rec_target a = target d)"
proof -
  have "(1 \<le> length (filter P xs)) = (\<exists>a \<in> set xs. P a)" for P :: "actionRecord \<Rightarrow> bool" and xs
    by (induction xs) auto
  then show ?thesis
    by (auto simp: isRepeatingAction_def Let_def split: option.splits)
qed

lemma loopGuard_sendUpdate: "loopGuard (sendUpdate s ty m) d = loopGuard s d"
  by (simp add: loopGuard_def isRepeatingAction_def sendUpdate_def)

lemma think_decides:
  "resp_success (chat w) \<Longrightarrow> \<not> stopInThink w \<Longrightarrow>
   fst (think w s) = Returned (loopGuard s (chosenCall (chat w)))"
  by (simp add: think_def Let_def stopRequested_def loopGuard_sendUpdate)

lemma think_records:
  "resp_success (chat w) \<Longrightarrow> \<not> stopInThink w \<Longrightarrow>
   lastAction (snd (think w s)) =
     Some \<lparr> rec_action = action (loopGuard s (chosenCall (chat w))),
            rec_target = target (loopGuard s (chosenCall (chat w))),
            rec_text = text_arg (loopGuard s (chosenCall (chat w))),
            rec_step = stepCount s \<rparr>"
proof -
  have a: "lastAction (sendUpdate t ty m) = lastAction t" "stepCount (sendUpdate t ty m) = stepCount t"
    for t ty m
    by (simp_all add: sendUpdate_def)
  have b: "lastAction (recordAction t d) =
      Some \<lparr> rec_action = action d, rec_target = target d, rec_text = text_arg d,
             rec_step = stepCount t \<rparr>" for t d
    by (simp add: recordAction_def Let_def)
  assume "resp_success (chat w)" "\<not> stopInThink w"
  then show ?thesis
    by (simp add: think_def Let_def stopRequested_def loopGuard_sendUpdate a b)
qed

text \<open>
  C2, as amended. A proposed decision that matches the last recorded decision in action
  and target, or one of the last two recorded, is rewritten before it is recorded and
  executed when its action is \<open>open\<close>, \<open>click\<close> or \<open>extract_text\<close>: \<open>open\<close> and
  \<open>click\<close> become \<open>extract_text\<close> on \<open>body\<close>, \<open>extract_text\<close> becomes \<open>finish\<close> with
  the generic summary, so the action kind changes. A repeated decision of any other
  kind (\<open>type\<close> among them) is detected and passed on unchanged.
\<close>

theorem loopGuard_rewrites_repeats:
  assumes "(\<exists>l. lastAction s = Some l \<and> rec_action l = action d \<and> rec_target l = target d)
     \<or> (\<exists>a \<in> set (slice_last 2 (actionHistory s)). rec_action a = action d \<and> rec_target a = target d)"
  shows "isRepeatingAction s d
    \<and> (action d = ''open'' \<or> action d = ''click'' \<longrightarrow>
         action (loopGuard s d) = ''extract_text'' \<and> target (loopGuard s d) = Some ''body'')
    \<and> (action d = ''extract_text'' \<longrightarrow>
         action (loopGuard s d) = ''finish''
         \<and> summary (loopGuard s d) = Some ''Task appears complete based on previous actions'')
    \<and> (action d = ''open'' \<or> action d = ''click'' \<or> action d = ''extract_text'' \<longrightarrow>
         action (loopGuard s d) \<noteq> action d)
    \<and> (action d \<noteq> ''open'' \<and> action d \<noteq> ''click'' \<and> action d \<noteq> ''extract_text'' \<longrightarrow>
         loopGuard s d = d)
    \<and> (resp_success (chat w) \<and> \<not> stopInThink w \<and> chosenCall (chat w) = d \<longrightarrow>
         fst (think w s) = Returned (loopGuard s d))"
proof -
  have rep: "isRepeatingAction s d"
    using assms by (simp only: isRepeatingAction_iff)
  have a: "action d = ''open'' \<or> action d = ''click'' \<longrightarrow>
         action (loopGuard s d) = ''extract_text'' \<and> target (loopGuard s d) = Some ''body''"
    using rep by (auto simp: loopGuard_def)
  have b: "action d = ''extract_text'' \<longrightarrow>
         action (loopGuard s d) = ''finish''
         \<and> summary (loopGuard s d) = Some ''Task appears complete based on previous actions''"
    using rep by (simp add: loopGuard_def)
  have c: "action d = ''open'' \<or> action d = ''click'' \<or> action d = ''extract_text'' \<longrightarrow>
         action (loopGuard s d) \<noteq> action d"
    using rep by (auto simp: loopGuard_def)
  have e: "action d \<noteq> ''open'' \<and> action d \<noteq> ''click'' \<and> action d \<noteq> ''extract_text'' \<longrightarrow>
         loopGuard s d = d"
    by (simp add: loopGuard_def)
  have f: "resp_success (chat w) \<and> \<not> stopInThink w \<and> chosenCall (chat w) = d \<longrightarrow>
         fst (think w s) = Returned (loopGuard s d)"
    using think_decides by blast
  show ?thesis using rep a b c e f by blast
qed

text \<open>A navigation proposed twice in a row: the second is turned into \<open>extract_text\<close>.\<close>

theorem loopGuard_rewrites_repeats_witness:
  "lastAction afterOpen = Some \<lparr> rec_action = ''open'', rec_target = Some ''https://example.com'',
       rec_text = None, rec_step = 0 \<rparr>
   \<and> isRepeatingAction afterOpen openCall
   \<and> action (loopGuard afterOpen openCall) = ''extract_text''
   \<and> target (loopGuard afterOpen openCall) = Some ''body''
   \<and> fst (think (answering openCall) afterOpen) = Returned (loopGuard afterOpen openCall)"
proof -
  have l: "lastAction afterOpen = Some \<lparr> rec_action = ''open'', rec_target = Some ''https://example.com'',
       rec_text = None, rec_step = 0 \<rparr>"
    by (simp add: afterOpen_def recordAction_def beginTask_def sendUpdate_def newAgent_def
        openCall_def Let_def)
  have h: "(\<exists>l. lastAction afterOpen = Some l \<and> rec_action l = action openCall \<and> rec_target l = target openCall)
     \<or> (\<exists>a \<in> set (slice_last 2 (actionHistory afterOpen)). rec_action a = action openCall \<and> rec_target a = target openCall)"
    by (simp add: l openCall_def)
  have o: "action openCall = ''open''" by (simp add: openCall_def)
  have w: "resp_success (chat (answering openCall))" "\<not> stopInThink (answering openCall)"
    "chosenCall (chat (answering openCall)) = openCall"
    by (simp_all add: answering_def chosenCall_def)
  show ?thesis
    using l o w loopGuard_rewrites_repeats [OF h, of "answering openCall"] by simp
qed

text \<open>
  The claim as stated fails for \<open>type\<close>: the decision just recorded, proposed again, is
  detected as a repetition and comes out of the guard and of THINK unchanged.
\<close>

theorem loopGuard_type_counterexample:
  "isRepeatingAction afterType typeCall
   \<and> loopGuard afterType typeCall = typeCall
   \<and> action (loopGuard afterType typeCall) = action typeCall
   \<and> fst (think (answering typeCall) afterType) = Returned typeCall"
proof -
  have r: "isRepeatingAction afterType typeCall"
    by (simp add: isRepeatingAction_def afterType_def recordAction_def beginTask_def
        sendUpdate_def newAgent_def typeCall_def Let_def)
  have g: "loopGuard afterType typeCall = typeCall"
    by (simp add: loopGuard_def typeCall_def)
  have t: "fst (think (answering typeCall) afterType) = Returned (loopGuard afterType typeCall)"
    using think_decides [of "answering typeCall" afterType]
    by (simp add: answering_def chosenCall_def)
  show ?thesis using r g t by simp
qed

text \<open>
  C5. When the oracle's answer succeeds but carries no \<open>browser_action\<close> tool call, the
  decision taken up is the fallback, \<open>extract_text\<close> on \<open>body\<close>, and THINK returns
  normally: it does not throw. What it returns is the fallback itself or, when the
  fallback repeats a recorded decision, the guard's \<open>finish\<close>; with no stop request the
  pass through the loop body then does not take the error path for THINK.
\<close>

theorem think_falls_back_without_tool_call:
  assumes "resp_success (chat w)"
    and "tool_call (chat w) = None
         \<or> (\<exists>tc. tool_call (chat w) = Some tc \<and> call_name tc \<noteq> ''browser_action'')"
  shows "chosenCall (chat w) = fallbackCall
    \<and> action fallbackCall = ''extract_text'' \<and> target fallbackCall = Some ''body''
    \<and> (\<exists>d. fst (think w s) = Returned d
          \<and> (d = fallbackCall \<or> action d = ''finish'')
          \<and> (\<not> stopInThink w \<longrightarrow> d = loopGuard s fallbackCall)
          \<and> (\<not> stopInThink w \<and> \<not> isRepeatingAction s fallbackCall \<longrightarrow> d = fallbackCall))"
proof -
  have c: "chosenCall (chat w) = fallbackCall"
    using assms(2) by (auto simp: chosenCall_def)
  have g: "loopGuard t fallbackCall = fallbackCall \<or> action (loopGuard t fallbackCall) = ''finish''" for t
    by (simp add: loopGuard_def fallbackCall_def)
  let ?s2 = "stopRequested (stopInThink w) (sendUpdate s ''thinking'' '':thinking: Thinking about next action...'')"
  have d: "fst (think w s) = Returned (loopGuard ?s2 fallbackCall)"
    using assms(1) c by (simp add: think_def Let_def)
  have q: "\<not> stopInThink w \<longrightarrow> loopGuard ?s2 fallbackCall = loopGuard s fallbackCall"
    by (simp add: stopRequested_def loopGuard_sendUpdate)
  have n: "\<not> isRepeatingAction s fallbackCall \<longrightarrow> loopGuard s fallbackCall = fallbackCall"
    by (simp add: loopGuard_def)
  show ?thesis
    using c d g [of ?s2] q n by (simp add: fallbackCall_def)
qed

text \<open>
  The silent oracle: the first THINK returns the fallback; the second, with the fallback
  on record, returns the guard's \<open>finish\<close>.
\<close>

theorem think_falls_back_without_tool_call_witness:
  "resp_success (chat (silentWorld 0)) \<and> tool_call (chat (silentWorld 0)) = None
   \<and> fst (think (silentWorld 0) (beginTask ''p'' 1 newAgent)) = Returned fallbackCall
   \<and> (\<exists>d. fst (think (silentWorld 1) afterFallback) = Returned d \<and> action d = ''finish'')"
proof -
  have a: "resp_success (chat (silentWorld i))" "tool_call (chat (silentWorld i)) = None"
    "\<not> stopInThink (silentWorld i)" for i
    by (simp_all add: silentWorld_def)
  have n: "\<not> isRepeatingAction (beginTask ''p'' 1 newAgent) fallbackCall"
    by (simp add: isRepeatingAction_def beginTask_def sendUpdate_def newAgent_def slice_last_def
        Let_def)
  have r: "isRepeatingAction afterFallback fallbackCall"
    by (simp add: isRepeatingAction_def afterFallback_def recordAction_def beginTask_def
        sendUpdate_def newAgent_def Let_def)
  have f: "action (loopGuard afterFallback fallbackCall) = ''finish''"
    using r by (simp add: loopGuard_def fallbackCall_def)
  from think_falls_back_without_tool_call [of "silentWorld 0" "beginTask ''p'' 1 newAgent"] a n
  have one: "fst (think (silentWorld 0) (beginTask ''p'' 1 newAgent)) = Returned fallbackCall"
    by auto
  from think_falls_back_without_tool_call [of "silentWorld 1" afterFallback] a f
  have two: "\<exists>d. fst (think (silentWorld 1) afterFallback) = Returned d \<and> action d = ''finish''"
    by auto
  show ?thesis using a one two by simp
qed

section \<open>Properties of OBSERVE\<close>


















text \<open>
  What the loop does when the race in ACT is rejected, as by the ten-second timer: the
  pass goes to the \<^verbatim>\<open>catch\<close> block without calling \<open>observe\<close>. The failure counter
  stays as it was and the only entry added to the transcript is the note of the error.
\<close>

lemma counter_think:
  "\<not> stopInThink w \<Longrightarrow> consecutiveFailures (snd (think w s)) = consecutiveFailures s"
  by (simp add: think_def Let_def stopRequested_def sendUpdate_def recordAction_def)

lemma history_think:
  "\<not> stopInThink w \<Longrightarrow> conversationHistory (snd (think w s)) = conversationHistory s"
  by (simp add: think_def Let_def stopRequested_def sendUpdate_def recordAction_def)

lemma counter_act:
  "\<not> stopInAct w \<Longrightarrow> consecutiveFailures (snd (act w s d)) = consecutiveFailures s"
  by (simp add: act_state stopRequested_def sendUpdate_def)

lemma history_act:
  "\<not> stopInAct w \<Longrightarrow> conversationHistory (snd (act w s d)) = conversationHistory s"
  by (simp add: act_state stopRequested_def sendUpdate_def)

lemma act_rejected:
  "action d \<noteq> ''open'' \<Longrightarrow> toContent w = Threw e \<Longrightarrow> fst (act w s d) = Threw e"
  by (simp add: act_def Let_def)

lemma loopBody_act_rejected:
  assumes run: "isRunning s" and q: "quiet w"
    and d: "fst (think w (s\<lparr>stepCount := stepCount s + 1\<rparr>)) = Returned d"
    and kind: "action d \<noteq> ''finish''" "action d \<noteq> ''open''"
    and rej: "toContent w = Threw e"
  shows "fst (loopBody w s) = Continue
    \<and> consecutiveFailures (snd (loopBody w s)) = consecutiveFailures s
    \<and> conversationHistory (snd (loopBody w s)) =
         conversationHistory s @ [sys (''Error occurred: '' @ e @ ''. Try a different approach.'')]"
proof -
  let ?s0 = "s\<lparr>stepCount := stepCount s + 1\<rparr>"
  have qs: "\<not> stopInThink w" "\<not> stopInAct w" using q by (simp_all add: quiet_def)
  obtain s1 where th: "think w ?s0 = (Returned d, s1)"
    using d by (cases "think w ?s0") simp
  have r1: "isRunning s1" using isRunning_think [OF qs(1), of ?s0] th run by simp
  have c1: "consecutiveFailures s1 = consecutiveFailures s"
    using counter_think [OF qs(1), of ?s0] th by simp
  have h1: "conversationHistory s1 = conversationHistory s"
    using history_think [OF qs(1), of ?s0] th by simp
  obtain s2 where ac: "act w s1 d = (Threw e, s2)"
    using act_rejected [OF kind(2) rej, of s1] by (cases "act w s1 d") simp
  have c2: "consecutiveFailures s2 = consecutiveFailures s"
    using counter_act [OF qs(2), of s1 d] ac c1 by simp
  have h2: "conversationHistory s2 = conversationHistory s"
    using history_act [OF qs(2), of s1 d] ac h1 by simp
  have lb: "loopBody w s = (Continue, stepFailed s2 e)"
    using th r1 kind(1) ac by (simp add: loopBody_def Let_def)
  show ?thesis
    using c2 h2 by (simp add: lb stepFailed_def pushHistory_def sendUpdate_def sys_def)
qed

text \<open>
  C6 (the code departs from the claim). The click on the submit button times out in the
  second pass, after one ordinary failure. ACT throws, so OBSERVE is not reached: the
  failure counter is 1 before the pass and 1 after it, the note that tells the planner
  to extract the page content is not in the transcript, the entry added is the generic
  note of the error, and the pass sends no \<open>observation\<close> update.
\<close>

theorem submit_click_timeout_skips_observe:
  "toContent (submitTimeoutWorld 1) = Threw ''Action timeout after 10 seconds''
   \<and> fst (think (submitTimeoutWorld 1) ((timeoutRun ! 0)\<lparr>stepCount := 2\<rparr>)) =
       Returned (clickCall ''input[type=submit]'')
   \<and> consecutiveFailures (timeoutRun ! 0) = 1
   \<and> consecutiveFailures (timeoutRun ! 1) = 1
   \<and> conversationHistory (timeoutRun ! 1) =
       conversationHistory (timeoutRun ! 0)
         @ [sys ''Error occurred: Action timeout after 10 seconds. Try a different approach.'']
   \<and> sys timeoutNote \<notin> set (conversationHistory (timeoutRun ! 1))
   \<and> map update_type (drop (length (sent (timeoutRun ! 0))) (sent (timeoutRun ! 1))) =
       [''thinking'', ''thinking'', ''action'', ''system'']"
  by code_simp

section \<open>Properties of the end of a task\<close>

lemma loopBody_quiet:
  assumes run: "isRunning s" and q: "quiet w"
  shows "(\<exists>x. loopBody w s = (Break, stopTask x))
       \<or> (fst (loopBody w s) = Continue \<and> isRunning (snd (loopBody w s)))"
proof -
  let ?s0 = "s\<lparr>stepCount := stepCount s + 1\<rparr>"
  obtain t s1 where th: "think w ?s0 = (t, s1)" by (cases "think w ?s0")
  have qs: "\<not> stopInThink w" "\<not> stopInAct w" "\<not> stopInSleep w"
    using q by (simp_all add: quiet_def)
  have r1: "isRunning s1" using isRunning_think [OF qs(1), of ?s0] th run by simp
  show ?thesis
  proof (cases "\<exists>d. t = Returned d \<and> action d = ''finish''")
    case True
    then obtain d where "t = Returned d" "action d = ''finish''" by blast
    with th r1 have "loopBody w s =
        (Break, stopTask (sendUpdate s1 ''system'' ('':check: Task completed: '' @ str (summary d))))"
      by (simp add: loopBody_def Let_def)
    then show ?thesis by blast
  next
    case False
    with th have "\<forall>d. fst (think w ?s0) = Returned d \<longrightarrow> action d \<noteq> ''finish''"
      by simp
    from loopBody_running [OF run qs this] show ?thesis by simp
  qed
qed

lemma agentLoop_while_quiet:
  "\<forall>i. quiet (env i) \<Longrightarrow> isRunning s \<Longrightarrow>
   isRunning (snd (agentLoop_while env i s)) \<or> (\<exists>x. snd (agentLoop_while env i s) = stopTask x)"
proof (induction env i s rule: agentLoop_while.induct)
  case (1 env i s)
  show ?case
  proof (cases "isRunning s \<and> stepCount s < maxSteps s")
    case False
    then show ?thesis using "1.prems" by (simp add: agentLoop_while_stop)
  next
    case g: True
    from "1.prems" have qi: "quiet (env i)" by simp
    from loopBody_quiet [OF "1.prems"(2) qi]
    show ?thesis
    proof
      assume "\<exists>x. loopBody (env i) s = (Break, stopTask x)"
      then obtain x where "loopBody (env i) s = (Break, stopTask x)" by blast
      with g have "agentLoop_while env i s = ([stopTask x], stopTask x)"
        by (simp add: agentLoop_while_Break)
      then have "snd (agentLoop_while env i s) = stopTask x" by simp
      then show ?thesis by blast
    next
      assume c: "fst (loopBody (env i) s) = Continue \<and> isRunning (snd (loopBody (env i) s))"
      obtain s' where lb: "loopBody (env i) s = (Continue, s')" and r': "isRunning s'"
        using c by (cases "loopBody (env i) s") auto
      from "1.IH" [OF g lb [symmetric] refl "1.prems"(1) r']
      show ?thesis
        using lb g by (simp add: agentLoop_while_Continue)
    qed
  qed
qed

text \<open>What \<open>stopTask\<close> leaves alone: the transcript, the tab and the budget.\<close>

lemma stopTask_keeps_transcript:
  "conversationHistory (stopTask s) = conversationHistory s \<and> tabId (stopTask s) = tabId s
   \<and> maxSteps (stopTask s) = maxSteps s"
  by (simp add: stopTask_def sendUpdate_def)

text \<open>
  C9. \<open>stopTask\<close> clears the current task, the step counter, the action on record, the
  action history and the failure counter, whatever they were, and sends one
  \<open>task_aborted\<close> update. Each terminal path goes through it: the finish decision (the
  pass ends in \<open>stopTask\<close> after the completion message), the exhausted budget
  (\<open>maxStepsReached\<close>) and the handler of an error in \<open>startTask\<close>. So a task that no
  stop request interrupts always ends in a state that \<open>stopTask\<close> produced, and the last
  update it sends is \<open>task_aborted\<close>, also when the task completed.
\<close>

theorem every_task_ends_in_stopTask:
  fixes env :: "nat \<Rightarrow> world" and prompt :: string and tab :: nat and s t :: agent and w :: world
  shows "(\<not> isRunning (stopTask t) \<and> currentTask (stopTask t) = None \<and> stepCount (stopTask t) = 0
      \<and> lastAction (stopTask t) = None \<and> actionHistory (stopTask t) = []
      \<and> consecutiveFailures (stopTask t) = 0
      \<and> sent (stopTask t) = sent t @
           [\<lparr>update_type = ''task_aborted'', update_message = '':stop_sign: Task aborted by user''\<rparr>])
    \<and> (isRunning t \<and> quiet w
        \<and> fst (think w (t\<lparr>stepCount := stepCount t + 1\<rparr>)) = Returned d \<and> action d = ''finish'' \<longrightarrow>
          loopBody w t =
            (Break, stopTask (sendUpdate (snd (think w (t\<lparr>stepCount := stepCount t + 1\<rparr>))) ''system''
                ('':check: Task completed: '' @ str (summary d)))))
    \<and> (stepCount t \<ge> maxSteps t \<longrightarrow>
          maxStepsReached t =
            stopTask (sendUpdate t ''system'' '':alarm: Task reached maximum steps limit''))
    \<and> startTask_catch t e = stopTask (sendUpdate t ''system'' ('':x: Task failed: '' @ e))
    \<and> ((\<forall>i. quiet (env i)) \<longrightarrow>
          (\<exists>x. snd (startTask env prompt tab s) = stopTask x)
          \<and> last (sent (snd (startTask env prompt tab s))) =
               \<lparr>update_type = ''task_aborted'', update_message = '':stop_sign: Task aborted by user''\<rparr>)"
proof -
  have clears: "\<not> isRunning (stopTask t) \<and> currentTask (stopTask t) = None \<and> stepCount (stopTask t) = 0
      \<and> lastAction (stopTask t) = None \<and> actionHistory (stopTask t) = []
      \<and> consecutiveFailures (stopTask t) = 0
      \<and> sent (stopTask t) = sent t @
           [\<lparr>update_type = ''task_aborted'', update_message = '':stop_sign: Task aborted by user''\<rparr>]"
    by (simp add: stopTask_def sendUpdate_def)
  have fin: "isRunning t \<and> quiet w
        \<and> fst (think w (t\<lparr>stepCount := stepCount t + 1\<rparr>)) = Returned d \<and> action d = ''finish'' \<longrightarrow>
          loopBody w t =
            (Break, stopTask (sendUpdate (snd (think w (t\<lparr>stepCount := stepCount t + 1\<rparr>))) ''system''
                ('':check: Task completed: '' @ str (summary d))))"
  proof (intro impI, elim conjE)
    let ?s0 = "t\<lparr>stepCount := stepCount t + 1\<rparr>"
    assume run: "isRunning t" and q: "quiet w"
      and d: "fst (think w ?s0) = Returned d" and f: "action d = ''finish''"
    have "isRunning (snd (think w ?s0))"
      using isRunning_think [of w ?s0] q run by (simp add: quiet_def)
    with d f show "loopBody w t =
            (Break, stopTask (sendUpdate (snd (think w ?s0)) ''system''
                ('':check: Task completed: '' @ str (summary d))))"
      by (simp add: loopBody_def Let_def case_prod_unfold)
  qed
  have budget: "stepCount t \<ge> maxSteps t \<longrightarrow>
          maxStepsReached t =
            stopTask (sendUpdate t ''system'' '':alarm: Task reached maximum steps limit'')"
    by (simp add: maxStepsReached_def)
  have err: "startTask_catch t e = stopTask (sendUpdate t ''system'' ('':x: Task failed: '' @ e))"
    by (simp add: startTask_catch_def)
  have whole: "(\<forall>i. quiet (env i)) \<longrightarrow>
          (\<exists>x. snd (startTask env prompt tab s) = stopTask x)
          \<and> last (sent (snd (startTask env prompt tab s))) =
               \<lparr>update_type = ''task_aborted'', update_message = '':stop_sign: Task aborted by user''\<rparr>"
  proof
    assume q: "\<forall>i. quiet (env i)"
    let ?start = "beginTask prompt tab s"
    let ?exit = "snd (agentLoop_while env 0 ?start)"
    have f: "snd (startTask env prompt tab s) = maxStepsReached ?exit"
      by (simp add: startTask_def agentLoop_def case_prod_unfold Let_def)
    have st: "isRunning ?start" "stepCount ?start = 0" "maxSteps ?start = maxSteps s"
      by (simp_all add: beginTask_fields)
    have le: "stepCount ?start \<le> maxSteps ?start" using st by simp
    from agentLoop_while_inv [OF le, of env 0]
    have rn: "isRunning ?exit \<longrightarrow> stepCount ?exit = maxSteps ?start"
      and mx: "maxSteps ?exit = maxSteps ?start"
      by blast+
    have ex: "\<exists>x. maxStepsReached ?exit = stopTask x"
    proof (cases "isRunning ?exit")
      case True
      with rn mx have "maxSteps ?exit \<le> stepCount ?exit" by simp
      then show ?thesis by (auto simp: maxStepsReached_def)
    next
      case False
      with agentLoop_while_quiet [OF q st(1), of 0]
      obtain x where "?exit = stopTask x" by blast
      then show ?thesis by (auto simp: maxStepsReached_def)
    qed
    then obtain x where x: "snd (startTask env prompt tab s) = stopTask x"
      unfolding f by blast
    have "last (sent (stopTask x)) =
        \<lparr>update_type = ''task_aborted'', update_message = '':stop_sign: Task aborted by user''\<rparr>"
      by (simp add: stopTask_def sendUpdate_def)
    with x show "(\<exists>x. snd (startTask env prompt tab s) = stopTask x)
          \<and> last (sent (snd (startTask env prompt tab s))) =
               \<lparr>update_type = ''task_aborted'', update_message = '':stop_sign: Task aborted by user''\<rparr>"
      by auto
  qed
  show ?thesis
    using clears fin budget err whole by blast
qed

text \<open>
  The task that completes at its first step: the completion message is followed by
  \<open>task_aborted\<close>, and the agent is left cleared.
\<close>

theorem every_task_ends_in_stopTask_witness:
  "(\<forall>i. quiet (finishingWorld i))
   \<and> isRunning (beginTask ''p'' 1 newAgent)
   \<and> fst (think (finishingWorld 0) ((beginTask ''p'' 1 newAgent)\<lparr>stepCount := 1\<rparr>)) = Returned finishCall
   \<and> action finishCall = ''finish''
   \<and> fst (loopBody (finishingWorld 0) (beginTask ''p'' 1 newAgent)) = Break
   \<and> (\<exists>x. snd (startTask finishingWorld ''p'' 1 newAgent) = stopTask x)
   \<and> last (sent (snd (startTask finishingWorld ''p'' 1 newAgent))) =
        \<lparr>update_type = ''task_aborted'', update_message = '':stop_sign: Task aborted by user''\<rparr>
   \<and> currentTask (snd (startTask finishingWorld ''p'' 1 newAgent)) = None
   \<and> actionHistory (snd (startTask finishingWorld ''p'' 1 newAgent)) = []"
proof -
  have q: "\<forall>i. quiet (finishingWorld i)"
    by (simp add: quiet_def finishingWorld_def answering_def)
  have r: "isRunning (beginTask ''p'' 1 newAgent)"
    by (simp add: beginTask_fields)
  have sc: "stepCount (beginTask ''p'' 1 newAgent) + 1 = 1"
    by (simp add: beginTask_fields)
  have d: "fst (think (finishingWorld 0) ((beginTask ''p'' 1 newAgent)\<lparr>stepCount := 1\<rparr>)) = Returned finishCall"
    by code_simp
  have a: "action finishCall = ''finish''" by (simp add: finishCall_def)
  note t = every_task_ends_in_stopTask
    [where env = finishingWorld and prompt = "''p''" and tab = 1 and s = newAgent
       and t = "beginTask ''p'' 1 newAgent" and w = "finishingWorld 0" and d = finishCall]
  from t q r d a sc have b: "fst (loopBody (finishingWorld 0) (beginTask ''p'' 1 newAgent)) = Break"
    by simp
  from t q obtain x where x: "snd (startTask finishingWorld ''p'' 1 newAgent) = stopTask x"
    by blast
  from t q have l: "last (sent (snd (startTask finishingWorld ''p'' 1 newAgent))) =
        \<lparr>update_type = ''task_aborted'', update_message = '':stop_sign: Task aborted by user''\<rparr>"
    by blast
  have c: "currentTask (snd (startTask finishingWorld ''p'' 1 newAgent)) = None"
    "actionHistory (snd (startTask finishingWorld ''p'' 1 newAgent)) = []"
    unfolding x by (simp_all add: stopTask_def sendUpdate_def)
  show ?thesis using q r d a b x l c by blast
qed

section \<open>Properties of extractText\<close>

lemma collapseSpaces_hd:
  "\<not> isSpace c \<Longrightarrow> collapseSpaces (c # cs) = c # collapseSpaces cs"
  by simp

lemma collapseSpaces_after_run:
  "collapseSpaces (dropWhile isSpace cs) = [] \<or> \<not> isSpace (hd (collapseSpaces (dropWhile isSpace cs)))"
proof (cases "dropWhile isSpace cs")
  case Nil
  then have "collapseSpaces (dropWhile isSpace cs) = []"
    by (simp only: collapseSpaces.simps)
  then show ?thesis by blast
next
  case (Cons d ds)
  then have "\<not> isSpace d"
    using hd_dropWhile [of isSpace cs] by simp
  then have "collapseSpaces (d # ds) = d # collapseSpaces ds" by simp
  then show ?thesis using Cons \<open>\<not> isSpace d\<close> by (simp only: list.sel) blast
qed

lemma collapseSpaces_only_spaces:
  "c \<in> set (collapseSpaces s) \<Longrightarrow> isSpace c \<Longrightarrow> c = 0x20"
  by (induction s rule: collapseSpaces.induct) (auto split: if_splits)

lemma collapseSpaces_noSpaceRun: "noSpaceRun (collapseSpaces s)"
  unfolding noSpaceRun_def
proof (induction s rule: collapseSpaces.induct)
  case 1
  then show ?case by simp
next
  case (2 c cs)
  show ?case
  proof (cases "isSpace c")
    case True
    with "2.IH"(1) collapseSpaces_after_run [of cs] show ?thesis
      by (auto simp: successively_Cons)
  next
    case False
    with "2.IH"(2) show ?thesis
      by (auto simp: successively_Cons)
  qed
qed

lemma noSpaceRun_dropWhile: "noSpaceRun s \<Longrightarrow> noSpaceRun (dropWhile P s)"
proof -
  assume "noSpaceRun s"
  then have "noSpaceRun (takeWhile P s @ dropWhile P s)" by simp
  then show ?thesis
    unfolding noSpaceRun_def successively_append_iff by blast
qed

lemma noSpaceRun_rev: "noSpaceRun (rev s) = noSpaceRun s"
proof -
  have eq: "(\<lambda>x y. \<not> (isSpace y \<and> isSpace x)) = (\<lambda>a b. \<not> (isSpace a \<and> isSpace b))"
    by (intro ext) blast
  show ?thesis
    unfolding noSpaceRun_def successively_rev eq by (rule refl)
qed

lemma noSpaceRun_trim: "noSpaceRun s \<Longrightarrow> noSpaceRun (trim s)"
  by (simp add: trim_def noSpaceRun_rev noSpaceRun_dropWhile)

lemma set_trim: "c \<in> set (trim s) \<Longrightarrow> c \<in> set s"
proof -
  assume "c \<in> set (trim s)"
  then have "c \<in> set (dropWhile isSpace (rev (dropWhile isSpace s)))"
    by (simp add: trim_def)
  then have "c \<in> set (rev (dropWhile isSpace s))" by (rule set_dropWhileD)
  then have "c \<in> set (dropWhile isSpace s)" by simp
  then show ?thesis by (rule set_dropWhileD)
qed

lemma last_dropWhile_same: "dropWhile P xs \<noteq> [] \<Longrightarrow> last (dropWhile P xs) = last xs"
  by (induction xs) (auto split: if_splits)

lemma trim_ends:
  assumes "trim s \<noteq> []"
  shows "\<not> isSpace (hd (trim s)) \<and> \<not> isSpace (last (trim s))"
proof -
  let ?a = "dropWhile isSpace s"
  let ?b = "dropWhile isSpace (rev ?a)"
  from assms have b: "?b \<noteq> []" by (simp add: trim_def)
  have a: "?a \<noteq> []"
  proof
    assume "?a = []"
    then have "?b = []" by (simp only: rev.simps dropWhile.simps)
    with b show False by contradiction
  qed
  have "last (trim s) = hd ?b" by (simp add: trim_def last_rev)
  moreover have "\<not> isSpace (hd ?b)" using hd_dropWhile [OF b] .
  moreover have "hd (trim s) = last ?b" by (simp add: trim_def hd_rev)
  moreover have "last ?b = last (rev ?a)" using last_dropWhile_same [OF b] .
  moreover have "last (rev ?a) = hd ?a" by (simp add: last_rev)
  moreover have "\<not> isSpace (hd ?a)" using hd_dropWhile [OF a] .
  ultimately show ?thesis by simp
qed

text \<open>
  The text of one element is white-space collapsed: its only white space is the single
  space, never two in a row, and none at either end.
\<close>

lemma normalizedText_collapsed:
  "(\<forall>c \<in> set (normalizedText el). isSpace c \<longrightarrow> c = 0x20)
   \<and> noSpaceRun (normalizedText el)
   \<and> (normalizedText el \<noteq> [] \<longrightarrow>
        \<not> isSpace (hd (normalizedText el)) \<and> \<not> isSpace (last (normalizedText el)))"
  using collapseSpaces_only_spaces set_trim trim_ends
  by (auto simp: normalizedText_def Let_def intro: noSpaceRun_trim collapseSpaces_noSpaceRun)

lemma getPageInfo_bounds:
  "length (headings (getPageInfo p)) \<le> 10 \<and> length (buttons (getPageInfo p)) \<le> 10
   \<and> length (links (getPageInfo p)) \<le> 10 \<and> length (inputs (getPageInfo p)) \<le> 10"
  by (simp add: getPageInfo_def length_slice_first)

text \<open>
  A query that throws (a selector that is not valid) is caught and reported as a failed
  extraction of its own kind; the log of actions is left as it was.
\<close>

lemma extractText_query_throws:
  "querySelectorAll p (case sel of None \<Rightarrow> ''body'' | Some x \<Rightarrow> x) = Threw e \<Longrightarrow>
   \<not> ex_success (fst (extractText p b sel))
   \<and> ex_error (fst (extractText p b sel)) = Some (''Text extraction failed: '' @ e)
   \<and> snd (extractText p b sel) = b"
  by (simp add: extractText_def Let_def)

text \<open>
  C8, as amended. When the selector matches no element, \<open>extractText\<close> fails with the
  error \<open>No elements found: \<close> followed by the selector. When it matches some, it
  succeeds; the text returned is the first 5000 code units of the normalized, non-empty
  texts of the matching elements, in document order, joined by two line feeds; each of
  those texts is white-space collapsed; and the page summary holds at most 10 headings,
  10 buttons, 10 links and 10 input descriptors. When the query itself throws, as on a
  selector that is not valid, it fails with the error \<open>Text extraction failed: \<close>
  followed by the error's message. An undefined selector stands for \<open>body\<close>.
\<close>

theorem extractText_result:
  fixes p :: page and b :: browserTools and sel :: "string option"
  defines "selector \<equiv> (case sel of None \<Rightarrow> ''body'' | Some x \<Rightarrow> x)"
      and "res \<equiv> fst (extractText p b sel)"
  shows "(querySelectorAll p selector = Returned [] \<longrightarrow>
            \<not> ex_success res \<and> ex_error res = Some (''No elements found: '' @ selector)
            \<and> ex_text res = None)
    \<and> (\<forall>els. querySelectorAll p selector = Returned els \<and> els \<noteq> [] \<longrightarrow>
          ex_success res \<and> ex_error res = None
          \<and> ex_text res = Some (take 5000 (join [0x0A, 0x0A]
                (filter (\<lambda>t. t \<noteq> []) (map normalizedText els))))
          \<and> (\<forall>el \<in> set els.
                (\<forall>c \<in> set (normalizedText el). isSpace c \<longrightarrow> c = 0x20)
                \<and> noSpaceRun (normalizedText el)
                \<and> (normalizedText el \<noteq> [] \<longrightarrow>
                     \<not> isSpace (hd (normalizedText el)) \<and> \<not> isSpace (last (normalizedText el))))
          \<and> (\<exists>t info. ex_text res = Some t \<and> length t \<le> 5000
                \<and> ex_pageInfo res = Some info
                \<and> length (headings info) \<le> 10 \<and> length (buttons info) \<le> 10
                \<and> length (links info) \<le> 10 \<and> length (inputs info) \<le> 10))
    \<and> (\<forall>e. querySelectorAll p selector = Threw e \<longrightarrow>
          \<not> ex_success res \<and> ex_error res = Some (''Text extraction failed: '' @ e)
          \<and> ex_text res = None \<and> ex_pageInfo res = None)"
proof -
  have none: "querySelectorAll p selector = Returned [] \<longrightarrow>
            \<not> ex_success res \<and> ex_error res = Some (''No elements found: '' @ selector)
            \<and> ex_text res = None"
    by (simp add: res_def extractText_def selector_def [symmetric] Let_def)
  have some: "ex_success res \<and> ex_error res = None
          \<and> ex_text res = Some (take 5000 (join [0x0A, 0x0A]
                (filter (\<lambda>t. t \<noteq> []) (map normalizedText els))))
          \<and> ex_pageInfo res = Some (getPageInfo p)"
    if "querySelectorAll p selector = Returned els" "els \<noteq> []" for els
    using that by (simp add: res_def extractText_def selector_def [symmetric] Let_def)
  have thrown: "\<forall>e. querySelectorAll p selector = Threw e \<longrightarrow>
          \<not> ex_success res \<and> ex_error res = Some (''Text extraction failed: '' @ e)
          \<and> ex_text res = None \<and> ex_pageInfo res = None"
    by (simp add: res_def extractText_def selector_def [symmetric] Let_def)
  have parts: "\<forall>els. querySelectorAll p selector = Returned els \<and> els \<noteq> [] \<longrightarrow>
          ex_success res \<and> ex_error res = None
          \<and> ex_text res = Some (take 5000 (join [0x0A, 0x0A]
                (filter (\<lambda>t. t \<noteq> []) (map normalizedText els))))
          \<and> (\<forall>el \<in> set els.
                (\<forall>c \<in> set (normalizedText el). isSpace c \<longrightarrow> c = 0x20)
                \<and> noSpaceRun (normalizedText el)
                \<and> (normalizedText el \<noteq> [] \<longrightarrow>
                     \<not> isSpace (hd (normalizedText el)) \<and> \<not> isSpace (last (normalizedText el))))
          \<and> (\<exists>t info. ex_text res = Some t \<and> length t \<le> 5000
                \<and> ex_pageInfo res = Some info
                \<and> length (headings info) \<le> 10 \<and> length (buttons info) \<le> 10
                \<and> length (links info) \<le> 10 \<and> length (inputs info) \<le> 10)"
    using some normalizedText_collapsed getPageInfo_bounds [of p]
    by (auto simp: Let_def)
  show ?thesis
    using none parts thrown by blast
qed

text \<open>
  On the sample page the selector \<open>p\<close> matches three elements, one of them blank; the
  selector \<open>body\<close> matches none; the selector \<open>###\<close> makes the query throw.
\<close>

theorem extractText_result_witness:
  "querySelectorAll samplePage ''body'' = Returned []
   \<and> ex_error (fst (extractText samplePage freshTools None)) = Some ''No elements found: body''
   \<and> \<not> ex_success (fst (extractText samplePage freshTools None))
   \<and> querySelectorAll samplePage ''p'' =
       Returned [plainElement (utf16 ''  Hello   world ''), plainElement [0x0A, 0x3000],
                 plainElement (utf16 ''a'' @ [0x09, 0x2028] @ utf16 ''b'')]
   \<and> ex_success (fst (extractText samplePage freshTools (Some ''p'')))
   \<and> ex_text (fst (extractText samplePage freshTools (Some ''p''))) =
       Some (utf16 ''Hello world'' @ [0x0A, 0x0A] @ utf16 ''a b'')
   \<and> noSpaceRun (normalizedText (plainElement (utf16 ''  Hello   world '')))
   \<and> (\<exists>info. ex_pageInfo (fst (extractText samplePage freshTools (Some ''p''))) = Some info
         \<and> length (links info) \<le> 10)
   \<and> querySelectorAll samplePage ''###'' = Threw (invalidSelector ''querySelectorAll'' ''###'')
   \<and> ex_error (fst (extractText samplePage freshTools (Some ''###''))) =
       Some (''Text extraction failed: '' @ invalidSelector ''querySelectorAll'' ''###'')"
proof -
  have q0: "querySelectorAll samplePage ''body'' = Returned []"
    by (simp add: samplePage_def)
  have q1: "querySelectorAll samplePage ''p'' =
       Returned [plainElement (utf16 ''  Hello   world ''), plainElement [0x0A, 0x3000],
                 plainElement (utf16 ''a'' @ [0x09, 0x2028] @ utf16 ''b'')]"
    by (simp add: samplePage_def)
  have q2: "querySelectorAll samplePage ''###'' = Threw (invalidSelector ''querySelectorAll'' ''###'')"
    by (simp add: samplePage_def)
  have n: "map normalizedText [plainElement (utf16 ''  Hello   world ''), plainElement [0x0A, 0x3000],
                 plainElement (utf16 ''a'' @ [0x09, 0x2028] @ utf16 ''b'')] =
             [utf16 ''Hello world'', [], utf16 ''a b'']"
    by (simp add: normalizedText_def plainElement_def utf16_def js_or_def truthy_def orEmpty_def
        trim_def isSpace_def Let_def)
  have ne: "utf16 ''Hello world'' \<noteq> []" "utf16 ''a b'' \<noteq> []"
    by (simp_all add: utf16_def)
  note t0 = extractText_result [where sel = None and p = samplePage and b = freshTools]
  note t1 = extractText_result [where sel = "Some ''p''" and p = samplePage and b = freshTools]
  note t2 = extractText_result [where sel = "Some ''###''" and p = samplePage and b = freshTools]
  from t0 q0 have a: "ex_error (fst (extractText samplePage freshTools None)) = Some ''No elements found: body''"
    "\<not> ex_success (fst (extractText samplePage freshTools None))"
    by simp_all
  from t1 q1 have b: "ex_success (fst (extractText samplePage freshTools (Some ''p'')))"
    by simp
  from t1 q1 have c: "ex_text (fst (extractText samplePage freshTools (Some ''p''))) =
       Some (take 5000 (join [0x0A, 0x0A]
                (filter (\<lambda>t. t \<noteq> []) (map normalizedText
                   [plainElement (utf16 ''  Hello   world ''), plainElement [0x0A, 0x3000],
                    plainElement (utf16 ''a'' @ [0x09, 0x2028] @ utf16 ''b'')]))))"
    by simp
  have c': "ex_text (fst (extractText samplePage freshTools (Some ''p''))) =
       Some (utf16 ''Hello world'' @ [0x0A, 0x0A] @ utf16 ''a b'')"
    unfolding c n using ne by (simp add: utf16_def)
  from t1 q1 have d: "noSpaceRun (normalizedText (plainElement (utf16 ''  Hello   world '')))"
    by simp
  from t1 q1 have e: "\<exists>info. ex_pageInfo (fst (extractText samplePage freshTools (Some ''p''))) = Some info
         \<and> length (links info) \<le> 10"
    by auto
  from t2 q2 have f: "ex_error (fst (extractText samplePage freshTools (Some ''###''))) =
       Some (''Text extraction failed: '' @ invalidSelector ''querySelectorAll'' ''###'')"
    by simp
  show ?thesis using q0 q1 q2 a b c' d e f by blast
qed

text \<open>
  The claim as stated fails on a selector the query rejects: the result is neither the
  \<open>No elements found\<close> failure nor a success.
\<close>

theorem extractText_invalid_selector_counterexample:
  "querySelectorAll samplePage ''###'' = Threw (invalidSelector ''querySelectorAll'' ''###'')
   \<and> \<not> ex_success (fst (extractText samplePage freshTools (Some ''###'')))
   \<and> ex_error (fst (extractText samplePage freshTools (Some ''###''))) =
       Some (''Text extraction failed: '' @ invalidSelector ''querySelectorAll'' ''###'')
   \<and> ex_error (fst (extractText samplePage freshTools (Some ''###''))) \<noteq>
       Some ''No elements found: ###''"
  by (simp add: extractText_def samplePage_def Let_def)

section \<open>The update types the agent sends\<close>

lemma nc_sendUpdate:
  "noneCompleted (sendUpdate s ty m) = (ty \<noteq> ''task_completed'' \<and> noneCompleted s)"
  by (auto simp: noneCompleted_def sendUpdate_def)

lemma nc_pushHistory: "noneCompleted (pushHistory s r c) = noneCompleted s"
  by (simp add: noneCompleted_def pushHistory_def)

lemma nc_stopTask: "noneCompleted (stopTask s) = noneCompleted s"
  by (simp add: noneCompleted_def stopTask_def sendUpdate_def)

lemma nc_stopRequested: "noneCompleted (stopRequested b s) = noneCompleted s"
  by (simp add: stopRequested_def handleAgentStop_def nc_stopTask)

lemma nc_recordAction: "noneCompleted (recordAction s d) = noneCompleted s"
  by (simp add: noneCompleted_def recordAction_def Let_def)

lemma nc_stepFailed: "noneCompleted (stepFailed s e) = noneCompleted s"
  by (simp add: stepFailed_def nc_pushHistory nc_sendUpdate)

lemma nc_think: "noneCompleted (snd (think w s)) = noneCompleted s"
  by (simp add: think_def Let_def nc_sendUpdate nc_stopRequested nc_recordAction)

lemma nc_act: "noneCompleted (snd (act w s d)) = noneCompleted s"
  by (simp add: act_state nc_sendUpdate nc_stopRequested)

lemma nc_observeReport: "noneCompleted (observeReport s m r) = noneCompleted s"
  by (simp add: observeReport_def nc_pushHistory nc_sendUpdate)

lemma nc_counter: "noneCompleted (s\<lparr>consecutiveFailures := c\<rparr>) = noneCompleted s"
  by (simp add: noneCompleted_def)

lemma nc_escalate: "noneCompleted (escalate s) = noneCompleted s"
  by (simp add: escalate_def nc_pushHistory nc_sendUpdate)

lemma nc_suggestNext: "suggestNext s r = Returned s' \<Longrightarrow> noneCompleted s' = noneCompleted s"
  by (auto simp: suggestNext_def nc_pushHistory split: if_splits outcome.splits)

lemma nc_observe: "noneCompleted (snd (observe s r)) = noneCompleted s"
proof (cases "success r")
  case True
  then show ?thesis
    by (simp add: observe_def observeSuccess_def Let_def nc_observeReport nc_pushHistory nc_counter
        split: outcome.split)
next
  case False
  show ?thesis
  proof (cases "isSubmitTimeout s r")
    case (Threw e)
    then show ?thesis using False by (simp add: observe_def observeFailure_def)
  next
    case (Returned b)
    define s2 where "s2 = countFailure (if b then timeoutAsSuccess s else s)"
    have n2: "noneCompleted s2 = noneCompleted s"
      by (simp add: s2_def countFailure_def timeoutAsSuccess_def nc_counter nc_pushHistory)
    show ?thesis
    proof (cases "suggestNext s2 r")
      case (Threw e)
      then show ?thesis
        using False Returned n2 by (simp add: observe_def observeFailure_def Let_def s2_def)
    next
      case s3: (Returned s3)
      then show ?thesis
        using False Returned n2 nc_suggestNext [OF s3]
        by (simp add: observe_def observeFailure_def Let_def s2_def [symmetric]
            nc_observeReport nc_escalate)
    qed
  qed
qed

lemma nc_loopBody: "noneCompleted (snd (loopBody w s)) = noneCompleted s"
proof -
  let ?s0 = "s\<lparr>stepCount := stepCount s + 1\<rparr>"
  have n0: "noneCompleted ?s0 = noneCompleted s" by (simp add: noneCompleted_def)
  obtain t s1 where th: "think w ?s0 = (t, s1)" by (cases "think w ?s0")
  have n1: "noneCompleted s1 = noneCompleted s" using nc_think [of w ?s0] th n0 by simp
  show ?thesis
  proof (cases t)
    case (Threw e)
    with th n1 show ?thesis by (simp add: loopBody_def Let_def nc_stepFailed)
  next
    case d: (Returned d)
    obtain a s2 where ac: "act w s1 d = (a, s2)" by (cases "act w s1 d")
    have n2: "noneCompleted s2 = noneCompleted s" using nc_act [of w s1 d] ac n1 by simp
    show ?thesis
    proof (cases a)
      case (Threw e)
      with th d n1 ac n2 show ?thesis
        by (simp add: loopBody_def Let_def nc_stepFailed nc_stopTask nc_sendUpdate)
    next
      case res: (Returned r)
      obtain ob s3 where obs: "observe s2 r = (ob, s3)" by (cases "observe s2 r")
      have n3: "noneCompleted s3 = noneCompleted s" using nc_observe [of s2 r] obs n2 by simp
      show ?thesis
        using th d n1 ac res n2 obs n3
        by (cases ob)
          (simp_all add: loopBody_def Let_def nc_stepFailed nc_stopTask nc_sendUpdate
            nc_stopRequested)
    qed
  qed
qed

lemma nc_agentLoop_while:
  "noneCompleted (snd (agentLoop_while env i s)) = noneCompleted s"
proof (induction env i s rule: agentLoop_while.induct)
  case (1 env i s)
  show ?case
  proof (cases "isRunning s \<and> stepCount s < maxSteps s")
    case False
    then show ?thesis by (simp add: agentLoop_while_stop)
  next
    case g: True
    obtain f s' where lb: "loopBody (env i) s = (f, s')" by (cases "loopBody (env i) s")
    have n: "noneCompleted s' = noneCompleted s" using nc_loopBody [of "env i" s] lb by simp
    show ?thesis
    proof (cases f)
      case Break
      with lb g n show ?thesis by (simp add: agentLoop_while_Break)
    next
      case Continue
      with "1.IH" [OF g lb [symmetric] Continue] lb g n show ?thesis
        by (simp add: agentLoop_while_Continue)
    qed
  qed
qed

text \<open>
  Whatever the world does, a task sends no update of type \<open>task_completed\<close>: if none
  was sent before \<open>startTask\<close>, none has been sent when it returns.
\<close>

lemma startTask_never_task_completed:
  "noneCompleted (snd (startTask env prompt tab s)) = noneCompleted s"
proof -
  have b: "noneCompleted (beginTask prompt tab s) = noneCompleted s"
    by (simp add: noneCompleted_def beginTask_def sendUpdate_def Let_def)
  have m: "noneCompleted (maxStepsReached t) = noneCompleted t" for t
    by (simp add: maxStepsReached_def nc_stopTask nc_sendUpdate)
  show ?thesis
    by (simp add: startTask_def agentLoop_def case_prod_unfold Let_def m nc_agentLoop_while b)
qed

text \<open>
  C3 (the code departs from the claim). On a finish decision the update sent is of type
  \<open>system\<close>, with the completion message, followed by the \<open>task_aborted\<close> of
  \<open>stopTask\<close>; no update of type \<open>task_completed\<close> is sent, here or in any other
  run (\<open>startTask_never_task_completed\<close>).
\<close>

theorem finish_sends_system_update:
  "sent (snd (startTask finishingWorld ''p'' 1 newAgent)) =
     [\<lparr>update_type = ''task_started'', update_message = '':robot: Starting task: '' @ dq @ ''p'' @ dq\<rparr>,
      \<lparr>update_type = ''thinking'', update_message = '':thinking: Thinking about next action...''\<rparr>,
      \<lparr>update_type = ''thinking'', update_message = '':thought: Nothing to do''\<rparr>,
      \<lparr>update_type = ''system'', update_message = '':check: Task completed: done''\<rparr>,
      \<lparr>update_type = ''task_aborted'', update_message = '':stop_sign: Task aborted by user''\<rparr>]
   \<and> ''task_completed'' \<notin> set (map update_type (sent (snd (startTask finishingWorld ''p'' 1 newAgent))))"
  by code_simp

end
